theory Spec2Isabelle
  imports Complex_Main
begin

section \<open>Values read by the dashboard\<close>

text \<open>
  The pipeline report is whatever \<^verbatim>\<open>json.load\<close> returns: a Python value built from
  \<^verbatim>\<open>None\<close>, booleans, integers, floats, strings, lists and dictionaries. A dictionary
  is kept as its list of items in insertion order; a parsed dictionary has no repeated
  key. Floats are modelled as exact reals: rounding, NaN and infinities are outside the
  model.
\<close>

datatype json =
    JNull
  | JBool bool
  | JInt int
  | JFloat real
  | JStr string
  | JArr "json list"
  | JObj "(string \<times> json) list"

text \<open>
  The exceptions a run can raise. \<open>BadReference\<close> is not a Python exception: it is
  the answer of the object store below to a reference that addresses no object, which
  no Python run produces.
\<close>

datatype error = TypeError | AttributeError | KeyError | ZeroDivisionError | BadReference

text \<open>Truth value of a Python object, as tested by \<^verbatim>\<open>if x\<close> and \<^verbatim>\<open>x and y\<close>.\<close>

fun truthy :: "json \<Rightarrow> bool" where
  "truthy JNull = False"
| "truthy (JBool b) = b"
| "truthy (JInt i) = (i \<noteq> 0)"
| "truthy (JFloat r) = (r \<noteq> 0)"
| "truthy (JStr s) = (s \<noteq> [])"
| "truthy (JArr xs) = (xs \<noteq> [])"
| "truthy (JObj kvs) = (kvs \<noteq> [])"

text \<open>Substring test, the meaning of \<^verbatim>\<open>k in s\<close> when \<^verbatim>\<open>s\<close> is a string.\<close>

fun is_substring :: "string \<Rightarrow> string \<Rightarrow> bool" where
  "is_substring k [] = (k = [])"
| "is_substring k (c # cs) = (take (length k) (c # cs) = k \<or> is_substring k cs)"

text \<open>
  \<^verbatim>\<open>k in x\<close> for a string key: key membership on a dictionary, element membership
  on a list, substring on a string; any other object is not iterable.
\<close>

fun contains :: "string \<Rightarrow> json \<Rightarrow> error + bool" where
  "contains k (JObj kvs) = Inr (k \<in> set (map fst kvs))"
| "contains k (JArr xs) = Inr (JStr k \<in> set xs)"
| "contains k (JStr s) = Inr (is_substring k s)"
| "contains k JNull = Inl TypeError"
| "contains k (JBool b) = Inl TypeError"
| "contains k (JInt i) = Inl TypeError"
| "contains k (JFloat r) = Inl TypeError"

text \<open>\<^verbatim>\<open>x[k]\<close> for a string key.\<close>

fun subscript :: "json \<Rightarrow> string \<Rightarrow> error + json" where
  "subscript (JObj kvs) k = (case map_of kvs k of Some v \<Rightarrow> Inr v | None \<Rightarrow> Inl KeyError)"
| "subscript x k = Inl TypeError"

text \<open>\<^verbatim>\<open>x.get(k, default)\<close>: only dictionaries have the method.\<close>

fun dict_get :: "json \<Rightarrow> string \<Rightarrow> json \<Rightarrow> error + json" where
  "dict_get (JObj kvs) k dflt = Inr (case map_of kvs k of Some v \<Rightarrow> v | None \<Rightarrow> dflt)"
| "dict_get x k dflt = Inl AttributeError"

text \<open>\<^verbatim>\<open>x.values()\<close> and \<^verbatim>\<open>x.items()\<close>.\<close>

fun dict_values :: "json \<Rightarrow> error + json list" where
  "dict_values (JObj kvs) = Inr (map snd kvs)"
| "dict_values x = Inl AttributeError"

fun dict_items :: "json \<Rightarrow> error + (string \<times> json) list" where
  "dict_items (JObj kvs) = Inr kvs"
| "dict_items x = Inl AttributeError"

text \<open>
  The numeric value of an object in arithmetic: integers, floats and booleans
  (\<^verbatim>\<open>True\<close> is 1) are numbers, nothing else is.
\<close>

fun py_num :: "json \<Rightarrow> real option" where
  "py_num (JInt i) = Some (of_int i)"
| "py_num (JFloat r) = Some r"
| "py_num (JBool b) = Some (if b then 1 else 0)"
| "py_num x = None"

text \<open>\<^verbatim>\<open>sum(xs)\<close>: starts from 0 and adds from the left; a non-number raises.\<close>

fun py_sum_from :: "real \<Rightarrow> json list \<Rightarrow> error + real" where
  "py_sum_from acc [] = Inr acc"
| "py_sum_from acc (x # xs) =
     (case py_num x of None \<Rightarrow> Inl TypeError | Some r \<Rightarrow> py_sum_from (acc + r) xs)"

definition py_sum :: "json list \<Rightarrow> error + real" where
  "py_sum xs = py_sum_from 0 xs"

text \<open>The count dictionaries map a table name to a row count.\<close>

type_synonym counts = "(string \<times> int) list"

definition count_get :: "counts \<Rightarrow> string \<Rightarrow> int" where
  "count_get m k = (case map_of m k of Some n \<Rightarrow> n | None \<Rightarrow> 0)"

record data =
  synthea :: counts
  omop :: counts
  pipeline_report :: json

text \<open>Sequencing of computations that may raise: the first exception ends the run.\<close>

definition ebind :: "error + 'a \<Rightarrow> ('a \<Rightarrow> error + 'b) \<Rightarrow> error + 'b" where
  "ebind m f = (case m of Inl e \<Rightarrow> Inl e | Inr v \<Rightarrow> f v)"

section \<open>Loading the counts and the report\<close>

text \<open>
  What \<^verbatim>\<open>load_real_data\<close> sees of the file system. A directory maps a file name to
  \<open>None\<close> when the file does not exist, and otherwise to the outcome of
  \<^verbatim>\<open>pd.read_csv\<close>: a frame of \<open>n\<close> rows, or an exception. The report files are the
  result of the glob in listing order, each with the outcome of opening and parsing it
  (\<open>None\<close> when that raises). The \<^verbatim>\<open>st.cache_data\<close> memoisation is not modelled.
\<close>

datatype csv_read = Rows nat | ReadFails

record files =
  synthea_dir :: "string \<Rightarrow> csv_read option"
  omop_dir :: "string \<Rightarrow> csv_read option"
  data_dir_exists :: bool
  pipeline_files :: "json option list"

definition synthea_files :: "string list" where
  "synthea_files =
     [''patients.csv'', ''encounters.csv'', ''conditions.csv'',
      ''medications.csv'', ''procedures.csv'', ''observations.csv'',
      ''allergies.csv'', ''organizations.csv'', ''providers.csv'']"

definition omop_files :: "string list" where
  "omop_files =
     [''person.csv'', ''visit_occurrence.csv'', ''condition_occurrence.csv'',
      ''drug_exposure.csv'', ''procedure_occurrence.csv'', ''measurement.csv'',
      ''observation.csv'', ''care_site.csv'', ''location.csv'', ''provider.csv'',
      ''observation_period.csv'']"

text \<open>
  \<^verbatim>\<open>s.replace(old, '')\<close>: every occurrence of \<open>old\<close>, found from the left and not
  overlapping, is removed. The counter is the number of characters of the current
  occurrence still to drop.
\<close>

fun strip_from :: "nat \<Rightarrow> string \<Rightarrow> string \<Rightarrow> string" where
  "strip_from skip old [] = []"
| "strip_from skip old (c # cs) =
     (if skip > 0 then strip_from (skip - 1) old cs
      else if old \<noteq> [] \<and> take (length old) (c # cs) = old
        then strip_from (length old - 1) old cs
      else c # strip_from 0 old cs)"

definition table_name :: "string \<Rightarrow> string" where
  "table_name file = strip_from 0 ''.csv'' file"

text \<open>\<^verbatim>\<open>d[k] = v\<close> on a dictionary kept in insertion order.\<close>

fun dict_set :: "counts \<Rightarrow> string \<Rightarrow> int \<Rightarrow> counts" where
  "dict_set [] k v = [(k, v)]"
| "dict_set ((k', v') # m) k v =
     (if k' = k then (k, v) # m else (k', v') # dict_set m k v)"

text \<open>
  The loop over a list of file names: a missing file leaves no entry, a readable file
  its number of rows, a file whose reading raises the count 0.
\<close>

fun load_counts :: "(string \<Rightarrow> csv_read option) \<Rightarrow> string list \<Rightarrow> counts \<Rightarrow> counts" where
  "load_counts dir [] acc = acc"
| "load_counts dir (file # rest) acc =
     (case dir file of
        None \<Rightarrow> load_counts dir rest acc
      | Some (Rows n) \<Rightarrow> load_counts dir rest (dict_set acc (table_name file) (int n))
      | Some ReadFails \<Rightarrow> load_counts dir rest (dict_set acc (table_name file) 0))"

definition load_pipeline_report :: "files \<Rightarrow> json" where
  "load_pipeline_report fs =
     (if data_dir_exists fs then
        (if pipeline_files fs \<noteq> [] then
           (case last (pipeline_files fs) of Some j \<Rightarrow> j | None \<Rightarrow> JObj [])
         else JObj [])
      else JObj [])"

definition load_real_data :: "files \<Rightarrow> data" where
  "load_real_data fs =
     \<lparr> synthea = load_counts (synthea_dir fs) synthea_files [],
       omop = load_counts (omop_dir fs) omop_files [],
       pipeline_report = load_pipeline_report fs \<rparr>"

section \<open>The metrics\<close>

record metrics =
  total_patients :: int
  total_encounters :: int
  total_conditions :: int
  total_medications :: int
  total_procedures :: int
  total_observations :: int
  omop_persons :: int
  omop_visits :: int
  omop_conditions :: int
  omop_drugs :: int
  omop_procedures :: int
  omop_measurements :: int
  omop_observations :: int
  success_rate :: json
  processing_time :: real
  db_connected :: bool
  concept_rate :: real

text \<open>The condition \<^verbatim>\<open>report and k in report\<close>.\<close>

definition report_has :: "json \<Rightarrow> string \<Rightarrow> error + bool" where
  "report_has report k = (if truthy report then contains k report else Inr False)"

text \<open>
  The success rate: the reported value, whatever object it is, when the report has
  validation results (0.95 when they carry no overall rate); otherwise the ratio of
  persons to patients capped at 1, or 0.95 without patients.
\<close>

definition success_rate_of :: "json \<Rightarrow> int \<Rightarrow> int \<Rightarrow> error + json" where
  "success_rate_of report patients persons =
     ebind (report_has report ''validation_results'') (\<lambda>b.
       if b then
         ebind (subscript report ''validation_results'') (\<lambda>vr.
         ebind (dict_get vr ''summary'' (JObj [])) (\<lambda>summary.
           dict_get summary ''overall_success_rate'' (JFloat 0.95)))
       else if patients > 0 then Inr (JFloat (min (real_of_int persons / real_of_int patients) 1.0))
       else Inr (JFloat 0.95))"

text \<open>
  The generator summed for the processing time: each phase is asked for its
  \<^verbatim>\<open>duration_seconds\<close> (0 when it has none) and the value is added at once.
\<close>

fun sum_durations :: "real \<Rightarrow> json list \<Rightarrow> error + real" where
  "sum_durations acc [] = Inr acc"
| "sum_durations acc (phase # rest) =
     (case dict_get phase ''duration_seconds'' (JInt 0) of
        Inl e \<Rightarrow> Inl e
      | Inr v \<Rightarrow>
          (case py_num v of
             None \<Rightarrow> Inl TypeError
           | Some r \<Rightarrow> sum_durations (acc + r) rest))"

definition processing_time_of :: "json \<Rightarrow> error + real" where
  "processing_time_of report =
     ebind (report_has report ''phase_performance'') (\<lambda>b.
       if b then
         ebind (subscript report ''phase_performance'') (\<lambda>pp.
         ebind (dict_values pp) (\<lambda>phases.
         ebind (sum_durations 0 phases) (\<lambda>total_time.
           Inr (if total_time > 0 then total_time else 180))))
       else Inr 180)"

text \<open>The loop that collects the mapped rates of the coverage entries.\<close>

fun is_dict :: "json \<Rightarrow> bool" where
  "is_dict (JObj kvs) = True"
| "is_dict x = False"

fun collect_rates :: "json list \<Rightarrow> (string \<times> json) list \<Rightarrow> error + json list" where
  "collect_rates rates [] = Inr rates"
| "collect_rates rates ((field, stats) # rest) =
     (if is_dict stats then
        (case contains ''mapped_rate'' stats of
           Inl e \<Rightarrow> Inl e
         | Inr b \<Rightarrow>
             if b then
               (case subscript stats ''mapped_rate'' of
                  Inl e \<Rightarrow> Inl e
                | Inr v \<Rightarrow> collect_rates (rates @ [v]) rest)
             else collect_rates rates rest)
      else collect_rates rates rest)"

definition concept_rate_of :: "json \<Rightarrow> error + real" where
  "concept_rate_of report =
     ebind (report_has report ''validation_results'') (\<lambda>b.
       if b then
         ebind (subscript report ''validation_results'') (\<lambda>vr.
         ebind (dict_get vr ''concept_coverage'' (JObj [])) (\<lambda>concept_coverage.
           if truthy concept_coverage then
             ebind (dict_items concept_coverage) (\<lambda>items.
             ebind (collect_rates [] items) (\<lambda>rates.
               if rates \<noteq> [] then
                 ebind (py_sum rates) (\<lambda>total. Inr (total / real (length rates)))
               else Inr 0.92))
           else Inr 0.92))
       else Inr 0.92)"

definition calculate_metrics :: "data \<Rightarrow> error + metrics" where
  "calculate_metrics d =
     (let report = pipeline_report d;
          patients = count_get (synthea d) ''patients'';
          persons = count_get (omop d) ''person''
      in
        ebind (success_rate_of report patients persons) (\<lambda>rate.
        ebind (processing_time_of report) (\<lambda>seconds.
        ebind (concept_rate_of report) (\<lambda>concepts.
          Inr \<lparr> total_patients = patients,
                total_encounters = count_get (synthea d) ''encounters'',
                total_conditions = count_get (synthea d) ''conditions'',
                total_medications = count_get (synthea d) ''medications'',
                total_procedures = count_get (synthea d) ''procedures'',
                total_observations = count_get (synthea d) ''observations'',
                omop_persons = persons,
                omop_visits = count_get (omop d) ''visit_occurrence'',
                omop_conditions = count_get (omop d) ''condition_occurrence'',
                omop_drugs = count_get (omop d) ''drug_exposure'',
                omop_procedures = count_get (omop d) ''procedure_occurrence'',
                omop_measurements = count_get (omop d) ''measurement'',
                omop_observations = count_get (omop d) ''observation'',
                success_rate = rate,
                processing_time = seconds,
                db_connected = (length (omop d) > 0),
                concept_rate = concepts \<rparr>))))"

section \<open>The comparison table\<close>

text \<open>\<^verbatim>\<open>str(n)\<close> for an integer: decimal digits, with a minus sign when negative.\<close>

fun str_nat :: "nat \<Rightarrow> string" where
  "str_nat n =
     (if n < 10 then [''0123456789'' ! n]
      else str_nat (n div 10) @ [''0123456789'' ! (n mod 10)])"

definition str_int :: "int \<Rightarrow> string" where
  "str_int i = (if i < 0 then CHR ''-'' # str_nat (nat (- i)) else str_nat (nat i))"

text \<open>
  The integrity labels of the table, without their pictograph: \<open>Ok_100\<close> is
  \<^verbatim>\<open>100%\<close> (the counts agree), \<open>Dividido\<close> a source table split over two target
  tables, \<open>Transformado\<close> a source table folded into another target table,
  \<open>Revisar\<close> a row to be reviewed and \<open>Sin_datos\<close> a row without source data.
\<close>

datatype integridad = Ok_100 | Dividido | Transformado | Revisar | Sin_datos

text \<open>
  One row of the table; the table names are kept without their pictograph and without
  accents.
\<close>

record row =
  tabla_synthea :: string
  registros_synthea :: string
  tabla_omop :: string
  registros_omop :: string
  integridad :: integridad

text \<open>A row that pairs one source table with one target table.\<close>

definition row_1_1 :: "data \<Rightarrow> string \<Rightarrow> string \<Rightarrow> string \<Rightarrow> row" where
  "row_1_1 d label src tgt =
     \<lparr> tabla_synthea = label,
       registros_synthea = str_int (count_get (synthea d) src),
       tabla_omop = tgt,
       registros_omop = str_int (count_get (omop d) tgt),
       integridad =
         (if count_get (synthea d) src = count_get (omop d) tgt then Ok_100 else Revisar) \<rparr>"

text \<open>A row that pairs one source table with the sum of two target tables.\<close>

definition row_split :: "data \<Rightarrow> string \<Rightarrow> string \<Rightarrow> string \<Rightarrow> row" where
  "row_split d src tgt1 tgt2 =
     \<lparr> tabla_synthea = src,
       registros_synthea = str_int (count_get (synthea d) src),
       tabla_omop = tgt1 @ '' + '' @ tgt2,
       registros_omop = str_int (count_get (omop d) tgt1 + count_get (omop d) tgt2),
       integridad =
         (if count_get (omop d) tgt1 + count_get (omop d) tgt2 > 0 then Dividido else Revisar) \<rparr>"

text \<open>The list \<^verbatim>\<open>comparison_data\<close> built by \<^verbatim>\<open>render_comparison\<close>, in its order.\<close>

definition comparison_data :: "data \<Rightarrow> row list" where
  "comparison_data d =
     [ row_1_1 d ''patients'' ''patients'' ''person'',
       row_1_1 d ''encounters'' ''encounters'' ''visit_occurrence'',
       row_1_1 d ''conditions'' ''conditions'' ''condition_occurrence'',
       row_1_1 d ''medications'' ''medications'' ''drug_exposure'',
       row_1_1 d ''procedures'' ''procedures'' ''procedure_occurrence'',
       row_split d ''observations'' ''measurement'' ''observation'',
       row_split d ''organizations'' ''care_site'' ''location'',
       row_1_1 d ''providers'' ''providers'' ''provider'',
       row_1_1 d ''patients (periodos)'' ''patients'' ''observation_period'',
       \<lparr> tabla_synthea = ''allergies'',
         registros_synthea = str_int (count_get (synthea d) ''allergies''),
         tabla_omop = ''observation (alergias)'',
         registros_omop = ''Incluido en observation'',
         integridad =
           (if count_get (synthea d) ''allergies'' > 0 then Transformado else Sin_datos) \<rparr> ]"

section \<open>What the specification says, for comparison with the code\<close>

text \<open>The value found by following a path of keys through nested dictionaries.\<close>

fun lookup_path :: "json \<Rightarrow> string list \<Rightarrow> json option" where
  "lookup_path j [] = Some j"
| "lookup_path (JObj kvs) (k # ks) =
     (case map_of kvs k of None \<Rightarrow> None | Some v \<Rightarrow> lookup_path v ks)"
| "lookup_path x (k # ks) = None"

text \<open>A field of the metrics when the call returns, \<open>None\<close> when it raises.\<close>

definition returned :: "(metrics \<Rightarrow> 'a) \<Rightarrow> error + metrics \<Rightarrow> 'a option" where
  "returned field r = (case r of Inl e \<Rightarrow> None | Inr m \<Rightarrow> Some (field m))"

text \<open>The derived tier and the default tier of the success rate.\<close>

definition derived_success_rate :: "int \<Rightarrow> int \<Rightarrow> json" where
  "derived_success_rate patients persons =
     (if patients > 0 then JFloat (min (real_of_int persons / real_of_int patients) 1)
      else JFloat 0.95)"

text \<open>
  The three tiers as the specification orders them: the reported overall rate when the
  report carries one, else the derived ratio, else the default.
\<close>

definition spec_success_rate :: "json \<Rightarrow> int \<Rightarrow> int \<Rightarrow> json" where
  "spec_success_rate report patients persons =
     (case lookup_path report [''validation_results'', ''summary'', ''overall_success_rate''] of
        Some v \<Rightarrow> v
      | None \<Rightarrow> derived_success_rate patients persons)"

text \<open>
  The tiers as the code orders them: a report with validation results never reaches the
  derived ratio; it yields its overall rate, or the default when it has none.
\<close>

definition gated_success_rate :: "json \<Rightarrow> int \<Rightarrow> int \<Rightarrow> json" where
  "gated_success_rate report patients persons =
     (case lookup_path report [''validation_results''] of
        Some vr \<Rightarrow>
          (case lookup_path vr [''summary'', ''overall_success_rate''] of
             Some v \<Rightarrow> v
           | None \<Rightarrow> JFloat 0.95)
      | None \<Rightarrow> derived_success_rate patients persons)"

text \<open>A value that is a number between 0 and 1.\<close>

definition in_unit_interval :: "json \<Rightarrow> bool" where
  "in_unit_interval v = (case py_num v of None \<Rightarrow> False | Some r \<Rightarrow> 0 \<le> r \<and> r \<le> 1)"

text \<open>The specification's connection flag: some target count is positive.\<close>

definition spec_target_connected :: "counts \<Rightarrow> bool" where
  "spec_target_connected target_counts = list_ex (\<lambda>entry. snd entry > 0) target_counts"

text \<open>
  The mapped rate an entry of the concept coverage exposes, and the numeric rates of all
  entries: an entry without a numeric rate contributes nothing.
\<close>

fun mapped_rate_of :: "json \<Rightarrow> json option" where
  "mapped_rate_of (JObj kvs) = map_of kvs ''mapped_rate''"
| "mapped_rate_of x = None"

definition rate_values :: "(string \<times> json) list \<Rightarrow> real list" where
  "rate_values entries =
     List.map_filter
       (\<lambda>entry. case mapped_rate_of (snd entry) of None \<Rightarrow> None | Some v \<Rightarrow> py_num v)
       entries"

definition coverage_entries :: "json \<Rightarrow> (string \<times> json) list" where
  "coverage_entries report =
     (case lookup_path report [''validation_results'', ''concept_coverage''] of
        Some (JObj entries) \<Rightarrow> entries
      | _ \<Rightarrow> [])"

definition spec_concept_mapping_rate :: "json \<Rightarrow> real" where
  "spec_concept_mapping_rate report =
     (let rates = rate_values (coverage_entries report)
      in if rates \<noteq> [] then sum_list rates / real (length rates) else 0.92)"

text \<open>The duration a phase declares, 0 when it declares none.\<close>

fun duration_of :: "json \<Rightarrow> real" where
  "duration_of (JObj kvs) =
     (case map_of kvs ''duration_seconds'' of
        None \<Rightarrow> 0
      | Some v \<Rightarrow> (case py_num v of None \<Rightarrow> 0 | Some r \<Rightarrow> r))"
| "duration_of x = 0"

definition declared_phases :: "json \<Rightarrow> json list" where
  "declared_phases report =
     (case lookup_path report [''phase_performance''] of
        Some (JObj phases) \<Rightarrow> map snd phases
      | _ \<Rightarrow> [])"

definition spec_processing_seconds :: "json \<Rightarrow> real" where
  "spec_processing_seconds report =
     (let total = sum_list (map duration_of (declared_phases report))
      in if total > 0 then total else 180)"

text \<open>
  A report of the documented shape: a dictionary whose sections, where present, are
  dictionaries; a summary that is a dictionary; coverage entries whose mapped rate,
  where present, is a number; phases that are dictionaries whose duration, where
  present, is a number. A concept coverage that is empty or null counts as absent.
\<close>

fun entry_ok :: "json \<Rightarrow> bool" where
  "entry_ok (JObj kvs) =
     (case map_of kvs ''mapped_rate'' of None \<Rightarrow> True | Some v \<Rightarrow> py_num v \<noteq> None)"
| "entry_ok x = True"

fun phase_ok :: "json \<Rightarrow> bool" where
  "phase_ok (JObj kvs) =
     (case map_of kvs ''duration_seconds'' of None \<Rightarrow> True | Some v \<Rightarrow> py_num v \<noteq> None)"
| "phase_ok x = False"

fun coverage_ok :: "json \<Rightarrow> bool" where
  "coverage_ok (JObj entries) = list_all (\<lambda>entry. entry_ok (snd entry)) entries"
| "coverage_ok x = (\<not> truthy x)"

fun validation_ok :: "json \<Rightarrow> bool" where
  "validation_ok (JObj kvs) =
     ((case map_of kvs ''summary'' of None \<Rightarrow> True | Some s \<Rightarrow> is_dict s) \<and>
      (case map_of kvs ''concept_coverage'' of None \<Rightarrow> True | Some c \<Rightarrow> coverage_ok c))"
| "validation_ok x = False"

fun phases_ok :: "json \<Rightarrow> bool" where
  "phases_ok (JObj phases) = list_all (\<lambda>entry. phase_ok (snd entry)) phases"
| "phases_ok x = False"

fun report_well_shaped :: "json \<Rightarrow> bool" where
  "report_well_shaped (JObj kvs) =
     ((case map_of kvs ''validation_results'' of None \<Rightarrow> True | Some v \<Rightarrow> validation_ok v) \<and>
      (case map_of kvs ''phase_performance'' of None \<Rightarrow> True | Some p \<Rightarrow> phases_ok p))"
| "report_well_shaped x = False"

section \<open>The metrics over an object store\<close>

text \<open>
  Python passes dictionaries and lists by reference, and a callee can change them in
  place. To speak about that, the same function is written a second time over a store
  of objects: a value is a scalar or a reference, an object is a dictionary or a list
  whose members are values, and the store is the list of all objects, an address being
  an index. Creating an object appends it to the store.
\<close>

datatype pyval = VNone | VBool bool | VInt int | VFloat real | VStr string | VRef nat

datatype pyobj = ODict "(string \<times> pyval) list" | OList "pyval list"

type_synonym store = "pyobj list"

text \<open>A run takes the store and gives the store it leaves with a value or an exception.\<close>

type_synonym 'a run = "store \<Rightarrow> store \<times> (error + 'a)"

definition unit_run :: "'a \<Rightarrow> 'a run" where
  "unit_run v h = (h, Inr v)"

definition lift :: "error + 'a \<Rightarrow> 'a run" where
  "lift r h = (h, r)"

definition reading :: "(store \<Rightarrow> error + 'a) \<Rightarrow> 'a run" where
  "reading f h = (h, f h)"

definition sbind :: "'a run \<Rightarrow> ('a \<Rightarrow> 'b run) \<Rightarrow> 'b run" where
  "sbind m f h = (case m h of (h', Inl e) \<Rightarrow> (h', Inl e) | (h', Inr v) \<Rightarrow> f v h')"

text \<open>The two operations that change the store: creating an object, appending to a list.\<close>

definition alloc :: "pyobj \<Rightarrow> pyval run" where
  "alloc obj h = (h @ [obj], Inr (VRef (length h)))"

definition append_item :: "pyval \<Rightarrow> pyval \<Rightarrow> unit run" where
  "append_item target v h =
     (case target of
        VRef a \<Rightarrow>
          (if a < length h then
             (case h ! a of
                OList xs \<Rightarrow> (h[a := OList (xs @ [v])], Inr ())
              | ODict kvs \<Rightarrow> (h, Inl AttributeError))
           else (h, Inl BadReference))
      | _ \<Rightarrow> (h, Inl AttributeError))"

text \<open>The operations that only look at the store.\<close>

definition deref :: "nat \<Rightarrow> store \<Rightarrow> error + pyobj" where
  "deref a h = (if a < length h then Inr (h ! a) else Inl BadReference)"

fun st_truthy :: "pyval \<Rightarrow> store \<Rightarrow> error + bool" where
  "st_truthy VNone h = Inr False"
| "st_truthy (VBool b) h = Inr b"
| "st_truthy (VInt i) h = Inr (i \<noteq> 0)"
| "st_truthy (VFloat r) h = Inr (r \<noteq> 0)"
| "st_truthy (VStr s) h = Inr (s \<noteq> [])"
| "st_truthy (VRef a) h =
     (case deref a h of
        Inl e \<Rightarrow> Inl e
      | Inr (ODict kvs) \<Rightarrow> Inr (kvs \<noteq> [])
      | Inr (OList xs) \<Rightarrow> Inr (xs \<noteq> []))"

fun st_contains :: "string \<Rightarrow> pyval \<Rightarrow> store \<Rightarrow> error + bool" where
  "st_contains k (VRef a) h =
     (case deref a h of
        Inl e \<Rightarrow> Inl e
      | Inr (ODict kvs) \<Rightarrow> Inr (k \<in> set (map fst kvs))
      | Inr (OList xs) \<Rightarrow> Inr (VStr k \<in> set xs))"
| "st_contains k (VStr s) h = Inr (is_substring k s)"
| "st_contains k v h = Inl TypeError"

fun st_subscript :: "pyval \<Rightarrow> string \<Rightarrow> store \<Rightarrow> error + pyval" where
  "st_subscript (VRef a) k h =
     (case deref a h of
        Inl e \<Rightarrow> Inl e
      | Inr (ODict kvs) \<Rightarrow> (case map_of kvs k of Some v \<Rightarrow> Inr v | None \<Rightarrow> Inl KeyError)
      | Inr (OList xs) \<Rightarrow> Inl TypeError)"
| "st_subscript v k h = Inl TypeError"

text \<open>The items of a dictionary; anything else has none of the dictionary methods.\<close>

fun st_items :: "pyval \<Rightarrow> store \<Rightarrow> error + (string \<times> pyval) list" where
  "st_items (VRef a) h =
     (case deref a h of
        Inl e \<Rightarrow> Inl e
      | Inr (ODict kvs) \<Rightarrow> Inr kvs
      | Inr (OList xs) \<Rightarrow> Inl AttributeError)"
| "st_items v h = Inl AttributeError"

definition st_values :: "pyval \<Rightarrow> store \<Rightarrow> error + pyval list" where
  "st_values v h = (case st_items v h of Inl e \<Rightarrow> Inl e | Inr kvs \<Rightarrow> Inr (map snd kvs))"

definition st_get :: "pyval \<Rightarrow> string \<Rightarrow> pyval \<Rightarrow> store \<Rightarrow> error + pyval" where
  "st_get v k dflt h =
     (case st_items v h of
        Inl e \<Rightarrow> Inl e
      | Inr kvs \<Rightarrow> Inr (case map_of kvs k of Some x \<Rightarrow> x | None \<Rightarrow> dflt))"

fun st_len :: "pyval \<Rightarrow> store \<Rightarrow> error + nat" where
  "st_len (VRef a) h =
     (case deref a h of
        Inl e \<Rightarrow> Inl e
      | Inr (ODict kvs) \<Rightarrow> Inr (length kvs)
      | Inr (OList xs) \<Rightarrow> Inr (length xs))"
| "st_len (VStr s) h = Inr (length s)"
| "st_len v h = Inl TypeError"

fun st_is_dict :: "pyval \<Rightarrow> store \<Rightarrow> error + bool" where
  "st_is_dict (VRef a) h =
     (case deref a h of
        Inl e \<Rightarrow> Inl e
      | Inr (ODict kvs) \<Rightarrow> Inr True
      | Inr (OList xs) \<Rightarrow> Inr False)"
| "st_is_dict v h = Inr False"

fun st_list :: "pyval \<Rightarrow> store \<Rightarrow> error + pyval list" where
  "st_list (VRef a) h =
     (case deref a h of
        Inl e \<Rightarrow> Inl e
      | Inr (ODict kvs) \<Rightarrow> Inr (map (\<lambda>entry. VStr (fst entry)) kvs)
      | Inr (OList xs) \<Rightarrow> Inr xs)"
| "st_list v h = Inl TypeError"

text \<open>
  \<^verbatim>\<open>x.get(k, {})\<close>: the method is looked up first, then the fresh empty dictionary of
  the default is created, then the call is made.
\<close>

definition get_or_fresh_dict :: "pyval \<Rightarrow> string \<Rightarrow> pyval run" where
  "get_or_fresh_dict v k =
     sbind (reading (st_items v)) (\<lambda>kvs.
     sbind (alloc (ODict [])) (\<lambda>dflt.
       reading (st_get v k dflt)))"

text \<open>Arithmetic on values: booleans count as integers, integers mix with floats.\<close>

fun st_int :: "pyval \<Rightarrow> int option" where
  "st_int (VInt i) = Some i"
| "st_int (VBool b) = Some (if b then 1 else 0)"
| "st_int v = None"

fun st_num :: "pyval \<Rightarrow> real option" where
  "st_num (VInt i) = Some (of_int i)"
| "st_num (VFloat r) = Some r"
| "st_num (VBool b) = Some (if b then 1 else 0)"
| "st_num v = None"

definition st_add :: "pyval \<Rightarrow> pyval \<Rightarrow> error + pyval" where
  "st_add x y =
     (case (st_int x, st_int y) of
        (Some i, Some j) \<Rightarrow> Inr (VInt (i + j))
      | _ \<Rightarrow>
          (case (st_num x, st_num y) of
             (Some a, Some b) \<Rightarrow> Inr (VFloat (a + b))
           | _ \<Rightarrow> Inl TypeError))"

definition st_truediv :: "pyval \<Rightarrow> pyval \<Rightarrow> error + pyval" where
  "st_truediv x y =
     (case (st_num x, st_num y) of
        (Some a, Some b) \<Rightarrow> (if b = 0 then Inl ZeroDivisionError else Inr (VFloat (a / b)))
      | _ \<Rightarrow> Inl TypeError)"

definition st_positive :: "pyval \<Rightarrow> error + bool" where
  "st_positive x = (case st_num x of Some a \<Rightarrow> Inr (a > 0) | None \<Rightarrow> Inl TypeError)"

definition st_min_one :: "pyval \<Rightarrow> error + pyval" where
  "st_min_one x = (case st_num x of Some a \<Rightarrow> Inr (if a \<le> 1 then x else VFloat 1) | None \<Rightarrow> Inl TypeError)"

fun st_sum_from :: "pyval \<Rightarrow> pyval list \<Rightarrow> error + pyval" where
  "st_sum_from acc [] = Inr acc"
| "st_sum_from acc (x # xs) =
     (case st_add acc x of Inl e \<Rightarrow> Inl e | Inr acc' \<Rightarrow> st_sum_from acc' xs)"

definition st_sum :: "pyval \<Rightarrow> store \<Rightarrow> error + pyval" where
  "st_sum v h = (case st_list v h of Inl e \<Rightarrow> Inl e | Inr xs \<Rightarrow> st_sum_from (VInt 0) xs)"

text \<open>The blocks of \<^verbatim>\<open>calculate_metrics\<close>, statement by statement.\<close>

definition report_has_store :: "pyval \<Rightarrow> string \<Rightarrow> bool run" where
  "report_has_store report k =
     sbind (reading (st_truthy report)) (\<lambda>t.
       if t then reading (st_contains k report) else unit_run False)"

definition success_rate_store :: "pyval \<Rightarrow> pyval \<Rightarrow> pyval \<Rightarrow> pyval run" where
  "success_rate_store report patients persons =
     sbind (report_has_store report ''validation_results'') (\<lambda>b.
       if b then
         sbind (reading (st_subscript report ''validation_results'')) (\<lambda>vr.
         sbind (get_or_fresh_dict vr ''summary'') (\<lambda>summary.
           reading (st_get summary ''overall_success_rate'' (VFloat 0.95))))
       else
         sbind (lift (st_positive patients)) (\<lambda>some.
           if some then
             sbind (lift (st_truediv persons patients)) (\<lambda>ratio. lift (st_min_one ratio))
           else unit_run (VFloat 0.95)))"

fun sum_durations_store :: "pyval \<Rightarrow> pyval list \<Rightarrow> pyval run" where
  "sum_durations_store acc [] = unit_run acc"
| "sum_durations_store acc (phase # rest) =
     sbind (reading (st_get phase ''duration_seconds'' (VInt 0))) (\<lambda>v.
     sbind (lift (st_add acc v)) (\<lambda>acc'.
       sum_durations_store acc' rest))"

definition processing_time_store :: "pyval \<Rightarrow> pyval run" where
  "processing_time_store report =
     sbind (report_has_store report ''phase_performance'') (\<lambda>b.
       if b then
         sbind (reading (st_subscript report ''phase_performance'')) (\<lambda>pp.
         sbind (reading (st_values pp)) (\<lambda>phases.
         sbind (sum_durations_store (VInt 0) phases) (\<lambda>total_time.
         sbind (lift (st_positive total_time)) (\<lambda>some.
           unit_run (if some then total_time else VInt 180)))))
       else unit_run (VInt 180))"

fun collect_rates_store :: "pyval \<Rightarrow> (string \<times> pyval) list \<Rightarrow> unit run" where
  "collect_rates_store rates [] = unit_run ()"
| "collect_rates_store rates ((field, stats) # rest) =
     sbind (reading (st_is_dict stats)) (\<lambda>is_dict.
       if is_dict then
         sbind (reading (st_contains ''mapped_rate'' stats)) (\<lambda>b.
           if b then
             sbind (reading (st_subscript stats ''mapped_rate'')) (\<lambda>v.
             sbind (append_item rates v) (\<lambda>u.
               collect_rates_store rates rest))
           else collect_rates_store rates rest)
       else collect_rates_store rates rest)"

definition concept_rate_store :: "pyval \<Rightarrow> pyval run" where
  "concept_rate_store report =
     sbind (report_has_store report ''validation_results'') (\<lambda>b.
       if b then
         sbind (reading (st_subscript report ''validation_results'')) (\<lambda>vr.
         sbind (get_or_fresh_dict vr ''concept_coverage'') (\<lambda>concept_coverage.
         sbind (reading (st_truthy concept_coverage)) (\<lambda>t.
           if t then
             sbind (alloc (OList [])) (\<lambda>rates.
             sbind (reading (st_items concept_coverage)) (\<lambda>items.
             sbind (collect_rates_store rates items) (\<lambda>u.
             sbind (reading (st_truthy rates)) (\<lambda>some.
               if some then
                 sbind (reading (st_sum rates)) (\<lambda>total.
                 sbind (reading (st_len rates)) (\<lambda>n.
                   lift (st_truediv total (VInt (int n)))))
               else unit_run (VFloat 0.92)))))
           else unit_run (VFloat 0.92))))
       else unit_run (VFloat 0.92))"

definition calculate_metrics_store :: "pyval \<Rightarrow> pyval run" where
  "calculate_metrics_store data =
     sbind (reading (st_subscript data ''synthea'')) (\<lambda>synthea.
     sbind (reading (st_subscript data ''omop'')) (\<lambda>omop.
     sbind (reading (st_subscript data ''pipeline_report'')) (\<lambda>report.
     sbind (reading (st_get synthea ''patients'' (VInt 0))) (\<lambda>total_patients.
     sbind (reading (st_get synthea ''encounters'' (VInt 0))) (\<lambda>total_encounters.
     sbind (reading (st_get synthea ''conditions'' (VInt 0))) (\<lambda>total_conditions.
     sbind (reading (st_get synthea ''medications'' (VInt 0))) (\<lambda>total_medications.
     sbind (reading (st_get synthea ''procedures'' (VInt 0))) (\<lambda>total_procedures.
     sbind (reading (st_get synthea ''observations'' (VInt 0))) (\<lambda>total_observations.
     sbind (reading (st_get omop ''person'' (VInt 0))) (\<lambda>omop_persons.
     sbind (reading (st_get omop ''visit_occurrence'' (VInt 0))) (\<lambda>omop_visits.
     sbind (reading (st_get omop ''condition_occurrence'' (VInt 0))) (\<lambda>omop_conditions.
     sbind (reading (st_get omop ''drug_exposure'' (VInt 0))) (\<lambda>omop_drugs.
     sbind (reading (st_get omop ''procedure_occurrence'' (VInt 0))) (\<lambda>omop_procedures.
     sbind (reading (st_get omop ''measurement'' (VInt 0))) (\<lambda>omop_measurements.
     sbind (reading (st_get omop ''observation'' (VInt 0))) (\<lambda>omop_observations.
     sbind (success_rate_store report total_patients omop_persons) (\<lambda>success_rate.
     sbind (processing_time_store report) (\<lambda>processing_time.
     sbind (reading (st_len omop)) (\<lambda>n.
     sbind (concept_rate_store report) (\<lambda>concept_rate.
       alloc (ODict
         [(''total_patients'', total_patients),
          (''total_encounters'', total_encounters),
          (''total_conditions'', total_conditions),
          (''total_medications'', total_medications),
          (''total_procedures'', total_procedures),
          (''total_observations'', total_observations),
          (''omop_persons'', omop_persons),
          (''omop_visits'', omop_visits),
          (''omop_conditions'', omop_conditions),
          (''omop_drugs'', omop_drugs),
          (''omop_procedures'', omop_procedures),
          (''omop_measurements'', omop_measurements),
          (''omop_observations'', omop_observations),
          (''success_rate'', success_rate),
          (''processing_time'', processing_time),
          (''db_connected'', VBool (n > 0)),
          (''concept_rate'', concept_rate)])))))))))))))))))))))"

text \<open>
  A run keeps the first \<open>n\<close> objects of the store: started on a store of at least
  \<open>n\<close> objects, it leaves a store that still has them, each as it was.
\<close>

definition keeps :: "nat \<Rightarrow> 'a run \<Rightarrow> bool" where
  "keeps n m =
     (\<forall>h. n \<le> length h \<longrightarrow> n \<le> length (fst (m h)) \<and> take n (fst (m h)) = take n h)"

section \<open>Stores that hold the data\<close>

text \<open>
  A value of the store stands for a JSON value when it is the same scalar, or a
  reference to a list or dictionary whose members stand for the members, in order and
  under the same keys.
\<close>

primrec repr :: "store \<Rightarrow> json \<Rightarrow> pyval \<Rightarrow> bool" where
  "repr h JNull = (\<lambda>v. v = VNone)"
| "repr h (JBool b) = (\<lambda>v. v = VBool b)"
| "repr h (JInt i) = (\<lambda>v. v = VInt i)"
| "repr h (JFloat r) = (\<lambda>v. v = VFloat r)"
| "repr h (JStr s) = (\<lambda>v. v = VStr s)"
| "repr h (JArr js) = (\<lambda>v.
     case v of
       VRef a \<Rightarrow>
         (case deref a h of
            Inr (OList xs) \<Rightarrow> list_all2 (\<lambda>p x. p x) (map (repr h) js) xs
          | _ \<Rightarrow> False)
     | _ \<Rightarrow> False)"
| "repr h (JObj kvs) = (\<lambda>v.
     case v of
       VRef a \<Rightarrow>
         (case deref a h of
            Inr (ODict ovs) \<Rightarrow>
              list_all2 (\<lambda>p entry. fst p = fst entry \<and> snd p (snd entry))
                (map (map_prod id (repr h)) kvs) ovs
          | _ \<Rightarrow> False)
     | _ \<Rightarrow> False)"

definition value_repr :: "store \<Rightarrow> pyval \<Rightarrow> json \<Rightarrow> bool" where
  "value_repr h v j = repr h j v"

definition entry_repr :: "store \<Rightarrow> string \<times> json \<Rightarrow> string \<times> pyval \<Rightarrow> bool" where
  "entry_repr h kv ov = (fst kv = fst ov \<and> repr h (snd kv) (snd ov))"

definition items_repr :: "store \<Rightarrow> (string \<times> pyval) list \<Rightarrow> (string \<times> json) list \<Rightarrow> bool" where
  "items_repr h ovs kvs = list_all2 (entry_repr h) kvs ovs"

text \<open>A number stands for its value; two plain results agree when they are equal.\<close>

definition num_repr :: "store \<Rightarrow> pyval \<Rightarrow> real \<Rightarrow> bool" where
  "num_repr h v r = (st_num v = Some r)"

definition same :: "store \<Rightarrow> 'a \<Rightarrow> 'a \<Rightarrow> bool" where
  "same h x y = (x = y)"

text \<open>One store extends another when it begins with the same objects.\<close>

definition extends :: "store \<Rightarrow> store \<Rightarrow> bool" where
  "extends h h' = (length h \<le> length h' \<and> take (length h) h' = h)"

text \<open>
  A run from a store agrees with a computation over JSON values when it leaves an
  extension of the store and either both raise the same exception or both return, the
  results standing for each other in the store left.
\<close>

definition sim :: "(store \<Rightarrow> 'a \<Rightarrow> 'b \<Rightarrow> bool) \<Rightarrow> store \<Rightarrow> 'a run \<Rightarrow> error + 'b \<Rightarrow> bool" where
  "sim R h m c = (case m h of (h', r) \<Rightarrow> extends h h' \<and> rel_sum (=) (R h') r c)"

text \<open>
  The argument of \<^verbatim>\<open>calculate_metrics\<close> as a JSON value, and the dictionary it returns
  as a reading of the metrics.
\<close>

definition counts_json :: "counts \<Rightarrow> json" where
  "counts_json cs = JObj (map (\<lambda>entry. (fst entry, JInt (snd entry))) cs)"

definition data_json :: "data \<Rightarrow> json" where
  "data_json d =
     JObj [(''synthea'', counts_json (synthea d)),
           (''omop'', counts_json (omop d)),
           (''pipeline_report'', pipeline_report d)]"

definition field_is :: "(string \<times> pyval) list \<Rightarrow> string \<Rightarrow> (pyval \<Rightarrow> bool) \<Rightarrow> bool" where
  "field_is slots k P = (case map_of slots k of Some x \<Rightarrow> P x | None \<Rightarrow> False)"

definition metrics_repr :: "store \<Rightarrow> pyval \<Rightarrow> metrics \<Rightarrow> bool" where
  "metrics_repr h v m =
     (case v of
        VRef a \<Rightarrow>
          (case deref a h of
             Inr (ODict slots) \<Rightarrow>
               map fst slots =
                 [''total_patients'', ''total_encounters'', ''total_conditions'',
                  ''total_medications'', ''total_procedures'', ''total_observations'',
                  ''omop_persons'', ''omop_visits'', ''omop_conditions'', ''omop_drugs'',
                  ''omop_procedures'', ''omop_measurements'', ''omop_observations'',
                  ''success_rate'', ''processing_time'', ''db_connected'', ''concept_rate'']
               \<and> field_is slots ''total_patients'' (\<lambda>x. x = VInt (total_patients m))
               \<and> field_is slots ''total_encounters'' (\<lambda>x. x = VInt (total_encounters m))
               \<and> field_is slots ''total_conditions'' (\<lambda>x. x = VInt (total_conditions m))
               \<and> field_is slots ''total_medications'' (\<lambda>x. x = VInt (total_medications m))
               \<and> field_is slots ''total_procedures'' (\<lambda>x. x = VInt (total_procedures m))
               \<and> field_is slots ''total_observations'' (\<lambda>x. x = VInt (total_observations m))
               \<and> field_is slots ''omop_persons'' (\<lambda>x. x = VInt (omop_persons m))
               \<and> field_is slots ''omop_visits'' (\<lambda>x. x = VInt (omop_visits m))
               \<and> field_is slots ''omop_conditions'' (\<lambda>x. x = VInt (omop_conditions m))
               \<and> field_is slots ''omop_drugs'' (\<lambda>x. x = VInt (omop_drugs m))
               \<and> field_is slots ''omop_procedures'' (\<lambda>x. x = VInt (omop_procedures m))
               \<and> field_is slots ''omop_measurements'' (\<lambda>x. x = VInt (omop_measurements m))
               \<and> field_is slots ''omop_observations'' (\<lambda>x. x = VInt (omop_observations m))
               \<and> field_is slots ''success_rate'' (repr h (success_rate m))
               \<and> field_is slots ''processing_time'' (\<lambda>x. st_num x = Some (processing_time m))
               \<and> field_is slots ''db_connected'' (\<lambda>x. x = VBool (db_connected m))
               \<and> field_is slots ''concept_rate'' (\<lambda>x. st_num x = Some (concept_rate m))
           | _ \<Rightarrow> False)
      | _ \<Rightarrow> False)"

section \<open>Facts about the blocks of the metrics\<close>

lemma in_keys_iff: "k \<in> fst ` set kvs \<longleftrightarrow> map_of kvs k \<noteq> None"
  by (simp add: map_of_eq_None_iff)

lemma report_has_JObj: "report_has (JObj kvs) k = Inr (map_of kvs k \<noteq> None)"
  by (cases kvs) (auto simp: report_has_def in_keys_iff)

lemma collect_rates_eq:
  "collect_rates acc items = Inr (acc @ List.map_filter (\<lambda>entry. mapped_rate_of (snd entry)) items)"
proof (induction items arbitrary: acc)
  case Nil
  show ?case by (simp add: map_filter_simps)
next
  case (Cons item items)
  obtain field stats where item: "item = (field, stats)" by (cases item)
  show ?case
  proof (cases stats)
    case (JObj kvs)
    with item Cons show ?thesis
      by (cases "map_of kvs ''mapped_rate''") (auto simp: map_filter_simps in_keys_iff)
  qed (use item Cons in \<open>auto simp: map_filter_simps\<close>)
qed

lemma py_sum_from_numeric:
  "list_all (\<lambda>v. py_num v \<noteq> None) vs \<Longrightarrow>
     py_sum_from acc vs = Inr (acc + sum_list (List.map_filter py_num vs))"
  by (induction vs arbitrary: acc) (auto simp: map_filter_simps)

lemma sum_durations_ok:
  "list_all phase_ok phases \<Longrightarrow>
     sum_durations acc phases = Inr (acc + sum_list (map duration_of phases))"
proof (induction phases arbitrary: acc)
  case Nil
  show ?case by simp
next
  case (Cons phase phases)
  then obtain kvs where phase: "phase = JObj kvs" by (cases phase) auto
  with Cons show ?case
    by (cases "map_of kvs ''duration_seconds''") auto
qed

lemma processing_time_of_ok:
  assumes "report_well_shaped report"
  shows "processing_time_of report = Inr (spec_processing_seconds report)"
proof -
  from assms obtain kvs where report: "report = JObj kvs" by (cases report) auto
  show ?thesis
  proof (cases "map_of kvs ''phase_performance''")
    case None
    with report show ?thesis
      by (simp add: processing_time_of_def report_has_JObj ebind_def
          spec_processing_seconds_def declared_phases_def)
  next
    case (Some pp)
    with assms report have "phases_ok pp" by simp
    then obtain phases where pp: "pp = JObj phases" by (cases pp) auto
    with \<open>phases_ok pp\<close> have "list_all phase_ok (map snd phases)"
      by (simp add: list_all_iff)
    then have "sum_durations 0 (map snd phases) = Inr (sum_list (map duration_of (map snd phases)))"
      using sum_durations_ok [of "map snd phases" 0] by simp
    with report Some pp show ?thesis
      by (simp add: processing_time_of_def report_has_JObj ebind_def
          spec_processing_seconds_def declared_phases_def Let_def)
  qed
qed

lemma rates_numeric:
  "list_all (\<lambda>entry. entry_ok (snd entry)) entries \<Longrightarrow>
     list_all (\<lambda>v. py_num v \<noteq> None) (List.map_filter (\<lambda>entry. mapped_rate_of (snd entry)) entries)"
proof (induction entries)
  case Nil
  show ?case by (simp add: map_filter_simps)
next
  case (Cons entry entries)
  then show ?case
    by (cases "snd entry") (auto simp: map_filter_simps split: option.splits)
qed

lemma rate_values_eq:
  "list_all (\<lambda>entry. entry_ok (snd entry)) entries \<Longrightarrow>
     List.map_filter py_num (List.map_filter (\<lambda>entry. mapped_rate_of (snd entry)) entries)
       = rate_values entries"
proof (induction entries)
  case Nil
  show ?case by (simp add: map_filter_simps rate_values_def)
next
  case (Cons entry entries)
  then show ?case
    by (cases "snd entry") (auto simp: map_filter_simps rate_values_def split: option.splits)
qed

lemma rate_values_length:
  "list_all (\<lambda>entry. entry_ok (snd entry)) entries \<Longrightarrow>
     length (List.map_filter (\<lambda>entry. mapped_rate_of (snd entry)) entries)
       = length (rate_values entries)"
proof (induction entries)
  case Nil
  show ?case by (simp add: map_filter_simps rate_values_def)
next
  case (Cons entry entries)
  then show ?case
    by (cases "snd entry") (auto simp: map_filter_simps rate_values_def split: option.splits)
qed

lemma coverage_rate_ok:
  assumes "list_all (\<lambda>entry. entry_ok (snd entry)) entries"
  shows "ebind (collect_rates [] entries) (\<lambda>rates.
               if rates \<noteq> [] then
                 ebind (py_sum rates) (\<lambda>total. Inr (total / real (length rates)))
               else Inr 0.92)
         = Inr (let rates = rate_values entries
                in if rates \<noteq> [] then sum_list rates / real (length rates) else 0.92)"
proof -
  let ?found = "List.map_filter (\<lambda>entry. mapped_rate_of (snd entry)) entries"
  have sum: "py_sum ?found = Inr (sum_list (rate_values entries))"
    using py_sum_from_numeric [OF rates_numeric [OF assms], of 0] rate_values_eq [OF assms]
    by (simp add: py_sum_def)
  have len: "length ?found = length (rate_values entries)"
    by (rule rate_values_length [OF assms])
  then have empty: "?found = [] \<longleftrightarrow> rate_values entries = []"
    by (metis length_0_conv)
  show ?thesis
    by (simp add: collect_rates_eq ebind_def sum len empty Let_def)
qed

lemma concept_rate_of_ok:
  assumes "report_well_shaped report"
  shows "concept_rate_of report = Inr (spec_concept_mapping_rate report)"
proof -
  from assms obtain kvs where report: "report = JObj kvs" by (cases report) auto
  show ?thesis
  proof (cases "map_of kvs ''validation_results''")
    case None
    with report show ?thesis
      by (simp add: concept_rate_of_def report_has_JObj ebind_def
          spec_concept_mapping_rate_def coverage_entries_def rate_values_def map_filter_simps)
  next
    case (Some vr)
    with assms report have "validation_ok vr" by simp
    then obtain vkvs where vr: "vr = JObj vkvs" by (cases vr) auto
    show ?thesis
    proof (cases "map_of vkvs ''concept_coverage''")
      case None
      with report Some vr show ?thesis
        by (simp add: concept_rate_of_def report_has_JObj ebind_def
            spec_concept_mapping_rate_def coverage_entries_def rate_values_def map_filter_simps)
    next
      case cc: (Some c)
      with \<open>validation_ok vr\<close> vr have ok: "coverage_ok c" by simp
      show ?thesis
      proof (cases c)
        case (JObj entries)
        with ok have "list_all (\<lambda>entry. entry_ok (snd entry)) entries" by simp
        note rate = coverage_rate_ok [OF this]
        show ?thesis
        proof (cases "entries = []")
          case True
          with report Some vr cc JObj show ?thesis
            by (simp add: concept_rate_of_def report_has_JObj ebind_def
                spec_concept_mapping_rate_def coverage_entries_def rate_values_def map_filter_simps)
        next
          case False
          with report Some vr cc JObj rate show ?thesis
            by (simp add: concept_rate_of_def report_has_JObj ebind_def
                spec_concept_mapping_rate_def coverage_entries_def)
        qed
      qed (use ok report Some vr cc in \<open>simp_all add: concept_rate_of_def report_has_JObj ebind_def
            spec_concept_mapping_rate_def coverage_entries_def rate_values_def map_filter_simps\<close>)
    qed
  qed
qed

lemma success_rate_of_ok:
  assumes "report_well_shaped report"
  shows "success_rate_of report p q = Inr (gated_success_rate report p q)"
proof -
  from assms obtain kvs where report: "report = JObj kvs" by (cases report) auto
  show ?thesis
  proof (cases "map_of kvs ''validation_results''")
    case None
    with report show ?thesis
      by (simp add: success_rate_of_def report_has_JObj ebind_def
          gated_success_rate_def derived_success_rate_def)
  next
    case (Some vr)
    with assms report have "validation_ok vr" by simp
    then obtain vkvs where vr: "vr = JObj vkvs" by (cases vr) auto
    show ?thesis
    proof (cases "map_of vkvs ''summary''")
      case None
      with report Some vr show ?thesis
        by (simp add: success_rate_of_def report_has_JObj ebind_def gated_success_rate_def)
    next
      case summary: (Some s)
      with \<open>validation_ok vr\<close> vr obtain skvs where "s = JObj skvs" by (cases s) auto
      with report Some vr summary show ?thesis
        by (simp add: success_rate_of_def report_has_JObj ebind_def gated_success_rate_def
            split: option.splits)
    qed
  qed
qed

lemma success_rate_of_Inr:
  assumes "success_rate_of report p q = Inr v"
  shows "v = gated_success_rate report p q"
proof (cases report)
  case (JObj kvs)
  show ?thesis
  proof (cases "map_of kvs ''validation_results''")
    case None
    with JObj assms show ?thesis
      by (auto simp: success_rate_of_def report_has_JObj ebind_def gated_success_rate_def
          derived_success_rate_def split: if_splits)
  next
    case (Some vr)
    with JObj assms have *: "ebind (dict_get vr ''summary'' (JObj [])) (\<lambda>summary.
           dict_get summary ''overall_success_rate'' (JFloat 0.95)) = Inr v"
      by (auto simp: success_rate_of_def report_has_JObj ebind_def split: if_splits)
    then obtain vkvs where vr: "vr = JObj vkvs" by (cases vr) (auto simp: ebind_def)
    show ?thesis
    proof (cases "map_of vkvs ''summary''")
      case None
      with * vr JObj Some show ?thesis by (auto simp: ebind_def gated_success_rate_def)
    next
      case summary: (Some s)
      with * vr obtain skvs where "s = JObj skvs" by (cases s) (auto simp: ebind_def)
      with * vr JObj Some summary show ?thesis
        by (auto simp: ebind_def gated_success_rate_def split: option.splits)
    qed
  qed
qed (use assms in \<open>auto simp: success_rate_of_def report_has_def ebind_def gated_success_rate_def
          derived_success_rate_def split: if_splits\<close>)

lemma calculate_metrics_Inr:
  assumes "calculate_metrics d = Inr m"
  shows "success_rate_of (pipeline_report d) (count_get (synthea d) ''patients'')
           (count_get (omop d) ''person'') = Inr (success_rate m)"
    and "processing_time_of (pipeline_report d) = Inr (processing_time m)"
    and "concept_rate_of (pipeline_report d) = Inr (concept_rate m)"
    and "db_connected m = (omop d \<noteq> [])"
  using assms
  by (auto simp: calculate_metrics_def Let_def ebind_def split: sum.splits)

lemma calculate_metrics_ok:
  assumes "report_well_shaped (pipeline_report d)"
  shows "calculate_metrics d =
     Inr \<lparr> total_patients = count_get (synthea d) ''patients'',
           total_encounters = count_get (synthea d) ''encounters'',
           total_conditions = count_get (synthea d) ''conditions'',
           total_medications = count_get (synthea d) ''medications'',
           total_procedures = count_get (synthea d) ''procedures'',
           total_observations = count_get (synthea d) ''observations'',
           omop_persons = count_get (omop d) ''person'',
           omop_visits = count_get (omop d) ''visit_occurrence'',
           omop_conditions = count_get (omop d) ''condition_occurrence'',
           omop_drugs = count_get (omop d) ''drug_exposure'',
           omop_procedures = count_get (omop d) ''procedure_occurrence'',
           omop_measurements = count_get (omop d) ''measurement'',
           omop_observations = count_get (omop d) ''observation'',
           success_rate = gated_success_rate (pipeline_report d)
             (count_get (synthea d) ''patients'') (count_get (omop d) ''person''),
           processing_time = spec_processing_seconds (pipeline_report d),
           db_connected = (omop d \<noteq> []),
           concept_rate = spec_concept_mapping_rate (pipeline_report d) \<rparr>"
  by (simp add: calculate_metrics_def Let_def ebind_def success_rate_of_ok [OF assms]
      processing_time_of_ok [OF assms] concept_rate_of_ok [OF assms])

section \<open>Facts about runs over the object store\<close>

lemma keeps_unit_run: "keeps n (unit_run v)"
  by (simp add: keeps_def unit_run_def)

lemma keeps_lift: "keeps n (lift r)"
  by (simp add: keeps_def lift_def)

lemma keeps_reading: "keeps n (reading f)"
  by (simp add: keeps_def reading_def)

lemma keeps_alloc: "keeps n (alloc obj)"
  by (simp add: keeps_def alloc_def)

lemma keeps_append: "n \<le> a \<Longrightarrow> keeps n (append_item (VRef a) v)"
  by (auto simp: keeps_def append_item_def split: pyobj.splits)

lemma keeps_sbind:
  assumes m: "keeps n m" and f: "\<And>v. keeps n (f v)"
  shows "keeps n (sbind m f)"
  unfolding keeps_def
proof (intro allI impI)
  fix h :: store
  assume h: "n \<le> length h"
  obtain h' r where run: "m h = (h', r)" by (cases "m h")
  from m h run have h': "n \<le> length h'" "take n h' = take n h"
    by (auto simp: keeps_def dest!: spec [of _ h])
  show "n \<le> length (fst (sbind m f h)) \<and> take n (fst (sbind m f h)) = take n h"
  proof (cases r)
    case (Inl e)
    with run h' show ?thesis by (simp add: sbind_def)
  next
    case (Inr v)
    from f [of v] h' have "n \<le> length (fst (f v h')) \<and> take n (fst (f v h')) = take n h'"
      by (simp add: keeps_def)
    with run Inr h' show ?thesis by (simp add: sbind_def)
  qed
qed

lemma keeps_alloc_sbind:
  assumes f: "\<And>a. n \<le> a \<Longrightarrow> keeps n (f (VRef a))"
  shows "keeps n (sbind (alloc obj) f)"
  unfolding keeps_def
proof (intro allI impI)
  fix h :: store
  assume h: "n \<le> length h"
  from f [OF h] have "keeps n (f (VRef (length h)))" .
  then have "n \<le> length (fst (f (VRef (length h)) (h @ [obj]))) \<and>
      take n (fst (f (VRef (length h)) (h @ [obj]))) = take n (h @ [obj])"
    using h by (simp add: keeps_def)
  with h show "n \<le> length (fst (sbind (alloc obj) f h)) \<and>
      take n (fst (sbind (alloc obj) f h)) = take n h"
    by (simp add: sbind_def alloc_def)
qed

lemma keeps_if: "keeps n a \<Longrightarrow> keeps n b \<Longrightarrow> keeps n (if c then a else b)"
  by simp

lemmas keeps_intros =
  keeps_sbind keeps_if keeps_unit_run keeps_lift keeps_reading keeps_alloc

lemma keeps_get_or_fresh_dict: "keeps n (get_or_fresh_dict v k)"
  unfolding get_or_fresh_dict_def by (intro keeps_intros)

lemma keeps_report_has_store: "keeps n (report_has_store report k)"
  unfolding report_has_store_def by (intro keeps_intros)

lemma keeps_success_rate_store: "keeps n (success_rate_store report p q)"
  unfolding success_rate_store_def
  by (intro keeps_intros keeps_report_has_store keeps_get_or_fresh_dict)

lemma keeps_sum_durations_store: "keeps n (sum_durations_store acc phases)"
  by (induction phases arbitrary: acc) (auto intro!: keeps_intros)

lemma keeps_processing_time_store: "keeps n (processing_time_store report)"
  unfolding processing_time_store_def
  by (intro keeps_intros keeps_report_has_store keeps_sum_durations_store)

lemma keeps_collect_rates_store:
  "n \<le> a \<Longrightarrow> keeps n (collect_rates_store (VRef a) items)"
proof (induction items)
  case Nil
  show ?case by (simp add: keeps_unit_run)
next
  case (Cons item items)
  obtain field stats where "item = (field, stats)" by (cases item)
  with Cons show ?case
    by (auto intro!: keeps_intros keeps_append)
qed

lemma keeps_concept_rate_store: "keeps n (concept_rate_store report)"
  unfolding concept_rate_store_def
  by (intro keeps_sbind keeps_if keeps_unit_run keeps_lift keeps_reading
      keeps_report_has_store keeps_get_or_fresh_dict keeps_alloc_sbind
      keeps_collect_rates_store)

lemma keeps_calculate_metrics_store: "keeps n (calculate_metrics_store data)"
  unfolding calculate_metrics_store_def
  by (intro keeps_intros keeps_success_rate_store keeps_processing_time_store
      keeps_concept_rate_store)

lemma derived_in_unit_interval:
  "0 \<le> persons \<Longrightarrow> in_unit_interval (derived_success_rate patients persons)"
  by (simp add: derived_success_rate_def in_unit_interval_def)

lemma gated_in_unit_interval:
  assumes "0 \<le> persons"
    and "case lookup_path report [''validation_results'', ''summary'', ''overall_success_rate'']
           of None \<Rightarrow> True | Some v \<Rightarrow> in_unit_interval v"
  shows "in_unit_interval (gated_success_rate report patients persons)"
proof (cases "lookup_path report [''validation_results'']")
  case None
  with assms(1) show ?thesis
    by (simp add: gated_success_rate_def derived_in_unit_interval)
next
  case (Some vr)
  then obtain kvs where report: "report = JObj kvs" and vr: "map_of kvs ''validation_results'' = Some vr"
    by (cases report) (auto split: option.splits)
  show ?thesis
  proof (cases "lookup_path vr [''summary'', ''overall_success_rate'']")
    case None
    with Some show ?thesis by (simp add: gated_success_rate_def in_unit_interval_def)
  next
    case rate: (Some v)
    with report vr assms(2) have "in_unit_interval v" by simp
    with Some rate show ?thesis by (simp add: gated_success_rate_def)
  qed
qed

lemma load_counts_none:
  "\<forall>file \<in> set names. dir file = None \<Longrightarrow> load_counts dir names acc = acc"
  by (induction names arbitrary: acc) auto

section \<open>The run over the store computes the metrics\<close>

lemma repr_JArr:
  "repr h (JArr js) v \<longleftrightarrow>
     (\<exists>a xs. v = VRef a \<and> a < length h \<and> h ! a = OList xs \<and> list_all2 (repr h) js xs)"
  by (auto simp: deref_def list_all2_map1 split: pyval.splits pyobj.splits sum.splits if_splits)

lemma repr_JObj:
  "repr h (JObj kvs) v \<longleftrightarrow>
     (\<exists>a ovs. v = VRef a \<and> a < length h \<and> h ! a = ODict ovs \<and>
        list_all2 (entry_repr h) kvs ovs)"
proof -
  have "entry_repr h = (\<lambda>kv ov. fst kv = fst ov \<and> repr h (snd kv) (snd ov))"
    by (intro ext) (simp add: entry_repr_def)
  then show ?thesis
    by (auto simp: deref_def list_all2_map1
        split: pyval.splits pyobj.splits sum.splits if_splits)
qed

lemmas repr_simps = repr.simps(1-5) repr_JArr repr_JObj

declare repr.simps(6,7) [simp del]

lemma extends_refl: "extends h h"
  by (simp add: extends_def)

lemma extends_trans:
  assumes "extends h h'" and "extends h' h''"
  shows "extends h h''"
proof -
  from assms have len: "length h \<le> length h'" "length h' \<le> length h''"
    and eq: "take (length h) h' = h" "take (length h') h'' = h'"
    by (simp_all add: extends_def)
  have "take (length h) h'' = take (length h) (take (length h') h'')"
    using len by (simp add: min_def)
  also have "\<dots> = h" using eq by simp
  finally show ?thesis using len by (simp add: extends_def)
qed

lemma extends_nth: "extends h h' \<Longrightarrow> a < length h \<Longrightarrow> h' ! a = h ! a"
  unfolding extends_def by (metis nth_take)

lemma extends_alloc: "extends h (h @ [obj])"
  by (simp add: extends_def)

lemma repr_mono: "repr h j v \<Longrightarrow> extends h h' \<Longrightarrow> repr h' j v"
proof (induction j arbitrary: v)
  case (JArr js)
  from JArr.prems obtain a xs where v: "v = VRef a" "a < length h" "h ! a = OList xs"
    and all: "list_all2 (repr h) js xs" by (auto simp: repr_JArr)
  from all JArr.IH JArr.prems(2) have "list_all2 (repr h') js xs"
    by (auto simp: list_all2_conv_all_nth)
  with v JArr.prems(2) show ?case
    by (auto simp: repr_JArr extends_nth extends_def)
next
  case (JObj kvs)
  from JObj.prems obtain a ovs where v: "v = VRef a" "a < length h" "h ! a = ODict ovs"
    and all: "list_all2 (entry_repr h) kvs ovs" by (auto simp: repr_JObj)
  have "list_all2 (entry_repr h') kvs ovs"
    unfolding list_all2_conv_all_nth
  proof (intro conjI allI impI)
    from all show "length kvs = length ovs" by (rule list_all2_lengthD)
  next
    fix i assume i: "i < length kvs"
    with all have e: "entry_repr h (kvs ! i) (ovs ! i)" by (simp add: list_all2_conv_all_nth)
    from i have "kvs ! i \<in> set kvs" by simp
    moreover have "snd (kvs ! i) \<in> Basic_BNFs.snds (kvs ! i)"
      by (cases "kvs ! i") simp
    ultimately have "repr h' (snd (kvs ! i)) (snd (ovs ! i))"
      using JObj.IH e JObj.prems(2) by (auto simp: entry_repr_def)
    with e show "entry_repr h' (kvs ! i) (ovs ! i)" by (simp add: entry_repr_def)
  qed
  with v JObj.prems(2) show ?case
    by (auto simp: repr_JObj extends_nth extends_def)
qed simp_all

lemma entries_keys: "list_all2 (entry_repr h) kvs ovs \<Longrightarrow> map fst ovs = map fst kvs"
  by (induction rule: list_all2_induct) (auto simp: entry_repr_def)

lemma entries_values:
  "list_all2 (entry_repr h) kvs ovs \<Longrightarrow>
     list_all2 (value_repr h) (map snd ovs) (map snd kvs)"
  by (induction rule: list_all2_induct) (auto simp: entry_repr_def value_repr_def)

lemma entries_map_of:
  "list_all2 (entry_repr h) kvs ovs \<Longrightarrow>
     rel_option (\<lambda>x j. repr h j x) (map_of ovs k) (map_of kvs k)"
  by (induction rule: list_all2_induct) (auto simp: entry_repr_def)

lemma repr_VStr: "repr h j (VStr s) \<longleftrightarrow> j = JStr s"
  by (cases j) (auto simp: repr_simps)

lemma reprs_mem_str:
  "list_all2 (repr h) js xs \<Longrightarrow> VStr k \<in> set xs \<longleftrightarrow> JStr k \<in> set js"
  by (induction rule: list_all2_induct) (auto simp: repr_VStr)

lemma st_truthy_repr: "repr h j v \<Longrightarrow> st_truthy v h = Inr (truthy j)"
  by (cases j) (auto simp: repr_simps deref_def)

lemma st_contains_repr: "repr h j v \<Longrightarrow> st_contains k v h = contains k j"
  by (cases j) (auto simp: repr_simps deref_def reprs_mem_str dest: entries_keys)

lemma st_is_dict_repr: "repr h j v \<Longrightarrow> st_is_dict v h = Inr (is_dict j)"
  by (cases j) (auto simp: repr_simps deref_def)

lemma st_items_repr:
  "repr h j v \<Longrightarrow> rel_sum (=) (items_repr h) (st_items v h) (dict_items j)"
  by (cases j) (auto simp: repr_simps deref_def items_repr_def)

lemma st_subscript_repr:
  assumes "repr h j v"
  shows "rel_sum (=) (value_repr h) (st_subscript v k h) (subscript j k)"
proof (cases j)
  case (JObj kvs)
  with assms obtain a ovs where v: "v = VRef a" "a < length h" "h ! a = ODict ovs"
    and all: "list_all2 (entry_repr h) kvs ovs" by (auto simp: repr_JObj)
  from entries_map_of [OF all, of k] v JObj show ?thesis
    by (cases "map_of ovs k"; cases "map_of kvs k") (auto simp: deref_def value_repr_def)
qed (use assms in \<open>auto simp: repr_simps deref_def\<close>)

lemma st_get_repr:
  assumes "repr h j v" and "repr h dj dv"
  shows "rel_sum (=) (value_repr h) (st_get v k dv h) (dict_get j k dj)"
proof (cases j)
  case (JObj kvs)
  with assms obtain a ovs where v: "v = VRef a" "a < length h" "h ! a = ODict ovs"
    and all: "list_all2 (entry_repr h) kvs ovs" by (auto simp: repr_JObj)
  from entries_map_of [OF all, of k] v JObj assms(2) show ?thesis
    by (cases "map_of ovs k"; cases "map_of kvs k")
      (auto simp: deref_def value_repr_def st_get_def)
qed (use assms in \<open>auto simp: repr_simps deref_def st_get_def\<close>)

lemma st_values_repr:
  assumes "repr h j v"
  shows "rel_sum (=) (list_all2 (value_repr h)) (st_values v h) (dict_values j)"
proof (cases j)
  case (JObj kvs)
  with assms obtain a ovs where v: "v = VRef a" "a < length h" "h ! a = ODict ovs"
    and all: "list_all2 (entry_repr h) kvs ovs" by (auto simp: repr_JObj)
  from entries_values [OF all] v JObj show ?thesis
    by (simp add: st_values_def deref_def)
qed (use assms in \<open>auto simp: repr_simps deref_def st_values_def\<close>)

lemma sim_bind:
  assumes m: "sim R h m c"
    and f: "\<And>h' v x. extends h h' \<Longrightarrow> R h' v x \<Longrightarrow> sim S h' (f v) (g x)"
  shows "sim S h (sbind m f) (ebind c g)"
proof -
  obtain h' r where run: "m h = (h', r)" by (cases "m h")
  with m have ext: "extends h h'" and rel: "rel_sum (=) (R h') r c"
    by (simp_all add: sim_def)
  show ?thesis
  proof (cases r)
    case (Inl e)
    with rel have "c = Inl e" by (cases c) auto
    with run Inl ext show ?thesis by (simp add: sim_def sbind_def ebind_def)
  next
    case (Inr v)
    with rel obtain x where c: "c = Inr x" and R: "R h' v x" by (cases c) auto
    from f [OF ext R] obtain h'' r' where run': "f v h' = (h'', r')"
      and ext': "extends h' h''" and rel': "rel_sum (=) (S h'') r' (g x)"
      by (cases "f v h'") (auto simp: sim_def)
    from extends_trans [OF ext ext'] run Inr run' rel' c show ?thesis
      by (simp add: sim_def sbind_def ebind_def)
  qed
qed

lemma sim_reading: "rel_sum (=) (R h) (f h) c \<Longrightarrow> sim R h (reading f) c"
  by (simp add: sim_def reading_def extends_refl)

lemma sim_lift: "rel_sum (=) (R h) r c \<Longrightarrow> sim R h (lift r) c"
  by (simp add: sim_def lift_def extends_refl)

lemma sim_unit: "R h v x \<Longrightarrow> sim R h (unit_run v) (Inr x)"
  by (simp add: sim_def unit_run_def extends_refl)

lemma value_repr_mono: "value_repr h v j \<Longrightarrow> extends h h' \<Longrightarrow> value_repr h' v j"
  unfolding value_repr_def by (rule repr_mono)

lemma sim_report_has_store:
  assumes "repr h j v"
  shows "sim same h (report_has_store v k) (report_has j k)"
proof -
  have "report_has_store v k h = (h, report_has j k)"
    by (simp add: report_has_store_def report_has_def sbind_def reading_def unit_run_def
        st_truthy_repr [OF assms] st_contains_repr [OF assms])
  then show ?thesis
    by (cases "report_has j k") (simp_all add: sim_def extends_refl same_def)
qed

lemma sim_get_or_fresh_dict:
  assumes "repr h j v"
  shows "sim value_repr h (get_or_fresh_dict v k) (dict_get j k (JObj []))"
proof (cases j)
  case (JObj kvs)
  with assms obtain a ovs where v: "v = VRef a" "a < length h" "h ! a = ODict ovs"
    by (auto simp: repr_JObj)
  let ?h' = "h @ [ODict []]"
  have ext: "extends h ?h'" by (rule extends_alloc)
  have run: "get_or_fresh_dict v k h = (?h', st_get v k (VRef (length h)) ?h')"
    using v by (simp add: get_or_fresh_dict_def sbind_def reading_def alloc_def deref_def)
  have "repr ?h' (JObj []) (VRef (length h))" by (simp add: repr_JObj)
  from st_get_repr [OF repr_mono [OF assms ext] this] run ext show ?thesis
    by (simp add: sim_def)
qed (use assms in \<open>auto simp: repr_simps deref_def get_or_fresh_dict_def sbind_def
      reading_def sim_def extends_refl\<close>)

lemma sim_subscript:
  "repr h j v \<Longrightarrow> sim value_repr h (reading (st_subscript v k)) (subscript j k)"
  using st_subscript_repr [of h j v k] by (simp add: sim_def reading_def extends_refl)

lemma sim_get:
  "repr h j v \<Longrightarrow> repr h dj dv \<Longrightarrow>
     sim value_repr h (reading (st_get v k dv)) (dict_get j k dj)"
  using st_get_repr [of h j v dj dv k] by (simp add: sim_def reading_def extends_refl)

lemma sim_values:
  "repr h j v \<Longrightarrow> sim (\<lambda>h. list_all2 (value_repr h)) h (reading (st_values v)) (dict_values j)"
  using st_values_repr [of h j v] by (simp add: sim_def reading_def extends_refl)

lemma sim_items:
  "repr h j v \<Longrightarrow> sim items_repr h (reading (st_items v)) (dict_items j)"
  using st_items_repr [of h j v] by (simp add: sim_def reading_def extends_refl)

lemma sim_overall_rate:
  assumes "repr h report rv"
  shows "sim value_repr h
       (sbind (reading (st_subscript rv ''validation_results'')) (\<lambda>vr.
         sbind (get_or_fresh_dict vr ''summary'') (\<lambda>summary.
           reading (st_get summary ''overall_success_rate'' (VFloat 0.95)))))
       (ebind (subscript report ''validation_results'') (\<lambda>vr.
         ebind (dict_get vr ''summary'' (JObj [])) (\<lambda>summary.
           dict_get summary ''overall_success_rate'' (JFloat 0.95))))"
proof (rule sim_bind [OF sim_subscript [OF assms]], goal_cases)
  case (1 h2 vr jvr)
  then have vr: "repr h2 jvr vr" by (simp add: value_repr_def)
  show ?case
  proof (rule sim_bind [OF sim_get_or_fresh_dict [OF vr]], goal_cases)
    case (1 h3 sv sj)
    then have "repr h3 sj sv" by (simp add: value_repr_def)
    then show ?case by (rule sim_get) simp
  qed
qed

lemma sim_success_rate_store:
  assumes "repr h report rv"
  shows "sim value_repr h (success_rate_store rv (VInt p) (VInt q)) (success_rate_of report p q)"
  unfolding success_rate_store_def success_rate_of_def
proof (rule sim_bind [OF sim_report_has_store [OF assms]], goal_cases)
  case (1 h1 b b')
  then have b: "b' = b" by (simp add: same_def)
  note report1 = repr_mono [OF assms 1(1)]
  show ?case
  proof (cases b)
    case True
    with b sim_overall_rate [OF report1] show ?thesis by simp
  next
    case False
    with b show ?thesis
      by (simp add: sim_def sbind_def lift_def unit_run_def st_positive_def st_truediv_def
          st_min_one_def extends_refl value_repr_def min_def)
  qed
qed

lemma st_num_repr: "repr h j v \<Longrightarrow> st_num v = py_num j"
  by (cases j) (auto simp: repr_simps)

lemma st_int_num: "st_int v = Some i \<Longrightarrow> st_num v = Some (of_int i)"
  by (cases v) (auto split: if_splits)

lemma st_add_ok:
  assumes "st_num a = Some x" and "st_num v = Some r"
  shows "\<exists>w. st_add a v = Inr w \<and> st_num w = Some (x + r)"
proof (cases "st_int a")
  case None
  with assms show ?thesis by (simp add: st_add_def)
next
  case a: (Some i)
  show ?thesis
  proof (cases "st_int v")
    case None
    with a assms show ?thesis by (simp add: st_add_def)
  next
    case (Some k)
    with a assms st_int_num [OF a] st_int_num [OF Some] show ?thesis
      by (simp add: st_add_def)
  qed
qed

lemma st_add_fail: "st_num v = None \<Longrightarrow> st_add a v = Inl TypeError"
  by (cases v) (auto simp: st_add_def split: option.splits)

lemma sum_durations_store_run:
  assumes "list_all2 (value_repr h) phases jphases" and "st_num accv = Some acc"
  shows "\<exists>r. sum_durations_store accv phases h = (h, r)
           \<and> rel_sum (=) (num_repr h) r (sum_durations acc jphases)"
  using assms
proof (induction arbitrary: accv acc rule: list_all2_induct)
  case Nil
  then show ?case by (simp add: unit_run_def num_repr_def)
next
  case (Cons phase phases jphase jphases)
  from Cons.hyps(1) have phase: "repr h jphase phase" by (simp add: value_repr_def)
  note get = st_get_repr [OF phase, of "JInt 0" "VInt 0" "''duration_seconds''"]
  show ?case
  proof (cases "dict_get jphase ''duration_seconds'' (JInt 0)")
    case (Inl e)
    with get have "st_get phase ''duration_seconds'' (VInt 0) h = Inl e"
      by (cases "st_get phase ''duration_seconds'' (VInt 0) h") auto
    with Inl show ?thesis by (simp add: sbind_def reading_def)
  next
    case (Inr jv)
    with get obtain v where v: "st_get phase ''duration_seconds'' (VInt 0) h = Inr v"
      and rv: "repr h jv v"
      by (cases "st_get phase ''duration_seconds'' (VInt 0) h") (auto simp: value_repr_def)
    show ?thesis
    proof (cases "py_num jv")
      case None
      with st_num_repr [OF rv] have "st_add accv v = Inl TypeError"
        by (simp add: st_add_fail)
      with Inr v None show ?thesis by (simp add: sbind_def reading_def lift_def)
    next
      case (Some r)
      with st_num_repr [OF rv] have "st_num v = Some r" by simp
      from st_add_ok [OF Cons.prems this] obtain w where
        w: "st_add accv v = Inr w" "st_num w = Some (acc + r)" by blast
      from Cons.IH [OF w(2)] Inr v Some w(1) show ?thesis
        by (simp add: sbind_def reading_def lift_def)
    qed
  qed
qed

lemma sim_sum_durations_store:
  assumes "list_all2 (value_repr h) phases jphases"
  shows "sim num_repr h (sum_durations_store (VInt 0) phases) (sum_durations 0 jphases)"
  using sum_durations_store_run [OF assms, of "VInt 0" 0]
  by (auto simp: sim_def extends_refl)

lemma sim_processing_time_store:
  assumes "repr h report rv"
  shows "sim num_repr h (processing_time_store rv) (processing_time_of report)"
  unfolding processing_time_store_def processing_time_of_def
proof (rule sim_bind [OF sim_report_has_store [OF assms]], goal_cases)
  case (1 h1 b b')
  then have b: "b' = b" by (simp add: same_def)
  note report1 = repr_mono [OF assms 1(1)]
  show ?case
  proof (cases b)
    case False
    with b show ?thesis by (simp add: sim_def unit_run_def extends_refl num_repr_def)
  next
    case True
    have "sim num_repr h1
       (sbind (reading (st_subscript rv ''phase_performance'')) (\<lambda>pp.
         sbind (reading (st_values pp)) (\<lambda>phases.
         sbind (sum_durations_store (VInt 0) phases) (\<lambda>total_time.
         sbind (lift (st_positive total_time)) (\<lambda>some.
           unit_run (if some then total_time else VInt 180))))))
       (ebind (subscript report ''phase_performance'') (\<lambda>pp.
         ebind (dict_values pp) (\<lambda>phases.
         ebind (sum_durations 0 phases) (\<lambda>total_time.
           Inr (if total_time > 0 then total_time else 180)))))"
    proof (rule sim_bind [OF sim_subscript [OF report1]], goal_cases)
      case (1 h2 pp jpp)
      then have "repr h2 jpp pp" by (simp add: value_repr_def)
      then show ?case
      proof (rule sim_bind [OF sim_values], goal_cases)
        case (1 h3 phases jphases)
        then show ?case
        proof (intro sim_bind [OF sim_sum_durations_store], goal_cases)
          case 1
          then show ?case by simp
        next
          case (2 h4 total t)
          then show ?case
            by (auto simp: sim_def sbind_def lift_def unit_run_def st_positive_def
                num_repr_def extends_refl)
        qed
      qed
    qed
    with True b show ?thesis by simp
  qed
qed

lemma extends_update: "extends h0 h \<Longrightarrow> length h0 \<le> a \<Longrightarrow> extends h0 (h[a := obj])"
  by (simp add: extends_def)

lemma st_subscript_extends:
  assumes "repr h0 j v" and "extends h0 h"
  shows "st_subscript v k h = st_subscript v k h0"
proof (cases v)
  case (VRef a)
  with assms(1) have "a < length h0" by (cases j) (auto simp: repr_simps)
  with assms(2) VRef show ?thesis
    by (simp add: deref_def extends_nth extends_def)
qed simp_all

lemma collect_rates_store_run:
  assumes "items_repr h0 items jitems"
    and "extends h0 h" and "length h0 \<le> a" and "a < length h"
    and "h ! a = OList xs" and "list_all2 (value_repr h0) xs rates"
  shows "\<exists>xs' rates'.
           collect_rates_store (VRef a) items h = (h[a := OList xs'], Inr ())
           \<and> collect_rates rates jitems = Inr rates'
           \<and> list_all2 (value_repr h0) xs' rates'"
  using assms unfolding items_repr_def
proof (induction arbitrary: h xs rates rule: list_all2_induct)
  case Nil
  from Nil(4) have "h = h[a := OList xs]" by (metis list_update_id)
  with Nil(5) have "h = h[a := OList xs] \<and> list_all2 (value_repr h0) xs rates" by simp
  then show ?case unfolding collect_rates_store.simps collect_rates.simps unit_run_def
    by blast
next
  case (Cons jitem jitems item items)
  obtain field stats where item: "item = (field, stats)" by (cases item)
  obtain jfield jstats where jitem: "jitem = (jfield, jstats)" by (cases jitem)
  from Cons.hyps(1) item jitem have stats0: "repr h0 jstats stats"
    by (simp add: entry_repr_def)
  note stats = repr_mono [OF stats0 Cons.prems(1)]
  note rest = Cons.IH [OF Cons.prems]
  show ?case
  proof (cases "is_dict jstats \<and> contains ''mapped_rate'' jstats = Inr True")
    case False
    then have skip: "collect_rates rates (jitem # jitems) = collect_rates rates jitems"
      using jitem by (cases jstats) auto
    from False have "collect_rates_store (VRef a) (item # items) h
        = collect_rates_store (VRef a) items h"
      using item st_is_dict_repr [OF stats] st_contains_repr [OF stats, of "''mapped_rate''"]
      by (cases jstats) (auto simp: sbind_def reading_def)
    with skip rest show ?thesis by simp
  next
    case True
    then obtain kvs jv where jstats: "jstats = JObj kvs"
      and jv: "map_of kvs ''mapped_rate'' = Some jv"
      by (cases jstats) (auto simp: in_keys_iff)
    from st_subscript_repr [OF stats0, of "''mapped_rate''"] jstats jv
    obtain x where x0: "st_subscript stats ''mapped_rate'' h0 = Inr x"
      and rx: "value_repr h0 x jv"
      by (cases "st_subscript stats ''mapped_rate'' h0") auto
    from x0 st_subscript_extends [OF stats0 Cons.prems(1)]
    have x: "st_subscript stats ''mapped_rate'' h = Inr x" by simp
    let ?h = "h[a := OList (xs @ [x])]"
    have step: "collect_rates_store (VRef a) (item # items) h
        = collect_rates_store (VRef a) items ?h"
      using item True x Cons.prems(3,4) st_is_dict_repr [OF stats]
        st_contains_repr [OF stats, of "''mapped_rate''"]
      by (simp add: sbind_def reading_def append_item_def)
    have pure: "collect_rates rates (jitem # jitems) = collect_rates (rates @ [jv]) jitems"
      using jitem jstats jv by (simp add: in_keys_iff)
    have "\<exists>xs' rates'.
           collect_rates_store (VRef a) items ?h = (?h[a := OList xs'], Inr ())
           \<and> collect_rates (rates @ [jv]) jitems = Inr rates'
           \<and> list_all2 (value_repr h0) xs' rates'"
    proof (rule Cons.IH)
      show "extends h0 ?h" by (rule extends_update [OF Cons.prems(1,2)])
      show "length h0 \<le> a" by (rule Cons.prems(2))
      show "a < length ?h" using Cons.prems(3) by simp
      show "?h ! a = OList (xs @ [x])" using Cons.prems(3) by simp
      show "list_all2 (value_repr h0) (xs @ [x]) (rates @ [jv])"
        using Cons.prems(5) rx by (simp add: list_all2_appendI)
    qed
    with step pure show ?thesis by simp
  qed
qed

lemma st_sum_from_repr:
  assumes "list_all2 (value_repr h) xs js" and "st_num accv = Some acc"
  shows "rel_sum (=) (num_repr h') (st_sum_from accv xs) (py_sum_from acc js)"
  using assms
proof (induction arbitrary: accv acc rule: list_all2_induct)
  case Nil
  then show ?case by (simp add: num_repr_def)
next
  case (Cons x xs j js)
  from Cons.hyps(1) have num: "st_num x = py_num j"
    by (simp add: value_repr_def st_num_repr)
  show ?case
  proof (cases "py_num j")
    case None
    with num show ?thesis by (simp add: st_add_fail)
  next
    case (Some r)
    with num have "st_num x = Some r" by simp
    from st_add_ok [OF Cons.prems this] obtain w where
      w: "st_add accv x = Inr w" "st_num w = Some (acc + r)" by blast
    from Cons.IH [OF w(2)] Some w(1) show ?thesis by simp
  qed
qed

lemma sim_coverage_rate:
  assumes cc: "repr h jcc ccv"
  shows "sim num_repr h
     (sbind (reading (st_truthy ccv)) (\<lambda>t.
        if t then
          sbind (alloc (OList [])) (\<lambda>rates.
          sbind (reading (st_items ccv)) (\<lambda>items.
          sbind (collect_rates_store rates items) (\<lambda>u.
          sbind (reading (st_truthy rates)) (\<lambda>some.
            if some then
              sbind (reading (st_sum rates)) (\<lambda>total.
              sbind (reading (st_len rates)) (\<lambda>n.
                lift (st_truediv total (VInt (int n)))))
            else unit_run (VFloat 0.92)))))
        else unit_run (VFloat 0.92)))
     (if truthy jcc then
        ebind (dict_items jcc) (\<lambda>items.
        ebind (collect_rates [] items) (\<lambda>rates.
          if rates \<noteq> [] then
            ebind (py_sum rates) (\<lambda>total. Inr (total / real (length rates)))
          else Inr 0.92))
      else Inr 0.92)"
    (is "sim num_repr h ?run ?pure")
proof (cases "truthy jcc")
  case False
  then show ?thesis
    by (simp add: sim_def sbind_def reading_def unit_run_def st_truthy_repr [OF cc]
        extends_refl num_repr_def)
next
  case True
  let ?a = "length h"
  let ?h1 = "h @ [OList []]"
  have ext1: "extends h ?h1" by (rule extends_alloc)
  note cc1 = repr_mono [OF cc ext1]
  show ?thesis
  proof (cases "dict_items jcc")
    case (Inl e)
    with st_items_repr [OF cc1] have "st_items ccv ?h1 = Inl e"
      by (cases "st_items ccv ?h1") auto
    with True Inl ext1 show ?thesis
      by (simp add: sim_def sbind_def reading_def alloc_def st_truthy_repr [OF cc] ebind_def)
  next
    case (Inr kvs)
    then have jcc: "jcc = JObj kvs" by (cases jcc) auto
    with cc obtain c ovs where ccv: "ccv = VRef c" "c < length h" "h ! c = ODict ovs"
      and items: "list_all2 (entry_repr h) kvs ovs" by (auto simp: repr_JObj)
    from ccv have items1: "st_items ccv ?h1 = Inr ovs"
      by (simp add: deref_def nth_append)
    from items have "items_repr h ovs kvs" by (simp add: items_repr_def)
    from collect_rates_store_run [OF this ext1, of ?a "[]" "[]"]
    obtain xs rates where
      loop: "collect_rates_store (VRef ?a) ovs ?h1 = (?h1[?a := OList xs], Inr ())"
      and pure: "collect_rates [] kvs = Inr rates"
      and rates: "list_all2 (value_repr h) xs rates"
      by auto
    let ?h2 = "?h1[?a := OList xs]"
    have ext2: "extends h ?h2" by (rule extends_update [OF ext1]) simp
    have at: "deref ?a ?h2 = Inr (OList xs)" by (simp add: deref_def)
    from rates have len: "length xs = length rates" by (rule list_all2_lengthD)
    then have empty: "xs = [] \<longleftrightarrow> rates = []" by (metis length_0_conv)
    have run: "?run h = (if xs \<noteq> [] then
          (case st_sum_from (VInt 0) xs of
             Inl e \<Rightarrow> (?h2, Inl e)
           | Inr tv \<Rightarrow> (?h2, st_truediv tv (VInt (int (length xs)))))
        else (?h2, Inr (VFloat 0.92)))"
      using True items1 loop at
      by (simp add: sbind_def reading_def alloc_def lift_def unit_run_def
          st_truthy_repr [OF cc] st_sum_def split: sum.splits)
    have calc: "?pure = (if rates \<noteq> [] then
          ebind (py_sum rates) (\<lambda>total. Inr (total / real (length rates)))
        else Inr 0.92)"
      using True Inr pure by (simp add: ebind_def)
    show ?thesis
    proof (cases "rates = []")
      case True
      with run calc empty ext2 show ?thesis
        by (simp add: sim_def num_repr_def)
    next
      case False
      note sum = st_sum_from_repr [OF rates, of "VInt 0" 0 ?h2]
      show ?thesis
      proof (cases "py_sum_from 0 rates")
        case (Inl e)
        with sum have "st_sum_from (VInt 0) xs = Inl e"
          by (cases "st_sum_from (VInt 0) xs") auto
        with Inl run calc empty False ext2 show ?thesis
          by (simp add: sim_def py_sum_def ebind_def)
      next
        case (Inr t)
        with sum obtain tv where tv: "st_sum_from (VInt 0) xs = Inr tv"
          and t: "st_num tv = Some t"
          by (cases "st_sum_from (VInt 0) xs") (auto simp: num_repr_def)
        from False empty have "length xs \<noteq> 0" by simp
        with t have "st_truediv tv (VInt (int (length xs)))
            = Inr (VFloat (t / real (length xs)))"
          by (simp add: st_truediv_def)
        with Inr tv run calc empty False ext2 len show ?thesis
          by (simp add: sim_def py_sum_def ebind_def num_repr_def)
      qed
    qed
  qed
qed

lemma sim_concept_rate_store:
  assumes "repr h report rv"
  shows "sim num_repr h (concept_rate_store rv) (concept_rate_of report)"
  unfolding concept_rate_store_def concept_rate_of_def
proof (rule sim_bind [OF sim_report_has_store [OF assms]], goal_cases)
  case (1 h1 b b')
  then have b: "b' = b" by (simp add: same_def)
  note report1 = repr_mono [OF assms 1(1)]
  show ?case
  proof (cases b)
    case False
    with b show ?thesis by (simp add: sim_def unit_run_def extends_refl num_repr_def)
  next
    case True
    have "sim num_repr h1
       (sbind (reading (st_subscript rv ''validation_results'')) (\<lambda>vr.
         sbind (get_or_fresh_dict vr ''concept_coverage'') (\<lambda>concept_coverage.
         sbind (reading (st_truthy concept_coverage)) (\<lambda>t.
           if t then
             sbind (alloc (OList [])) (\<lambda>rates.
             sbind (reading (st_items concept_coverage)) (\<lambda>items.
             sbind (collect_rates_store rates items) (\<lambda>u.
             sbind (reading (st_truthy rates)) (\<lambda>some.
               if some then
                 sbind (reading (st_sum rates)) (\<lambda>total.
                 sbind (reading (st_len rates)) (\<lambda>n.
                   lift (st_truediv total (VInt (int n)))))
               else unit_run (VFloat 0.92)))))
           else unit_run (VFloat 0.92)))))
       (ebind (subscript report ''validation_results'') (\<lambda>vr.
         ebind (dict_get vr ''concept_coverage'' (JObj [])) (\<lambda>concept_coverage.
           if truthy concept_coverage then
             ebind (dict_items concept_coverage) (\<lambda>items.
             ebind (collect_rates [] items) (\<lambda>rates.
               if rates \<noteq> [] then
                 ebind (py_sum rates) (\<lambda>total. Inr (total / real (length rates)))
               else Inr 0.92))
           else Inr 0.92)))"
    proof (rule sim_bind [OF sim_subscript [OF report1]], goal_cases)
      case (1 h2 vr jvr)
      then have vr: "repr h2 jvr vr" by (simp add: value_repr_def)
      show ?case
      proof (rule sim_bind [OF sim_get_or_fresh_dict [OF vr]], goal_cases)
        case (1 h3 ccv jcc)
        then have "repr h3 jcc ccv" by (simp add: value_repr_def)
        then show ?case by (rule sim_coverage_rate)
      qed
    qed
    with True b show ?thesis by simp
  qed
qed

lemma sbind_reading:
  "sbind (reading f) g h = (case f h of Inl e \<Rightarrow> (h, Inl e) | Inr v \<Rightarrow> g v h)"
  by (simp add: sbind_def reading_def)

lemma sim_len_known:
  "st_len v h = Inr n \<Longrightarrow> sim R h (g n) c \<Longrightarrow> sim R h (sbind (reading (st_len v)) g) c"
  by (simp add: sim_def sbind_reading)

lemma count_read:
  assumes "repr h (counts_json cs) v"
  shows "st_get v k (VInt 0) h = Inr (VInt (count_get cs k))"
proof -
  have "map_of (map (\<lambda>entry. (fst entry, JInt (snd entry))) cs) k
      = map_option JInt (map_of cs k)"
    by (induction cs) auto
  then have pure: "dict_get (counts_json cs) k (JInt 0) = Inr (JInt (count_get cs k))"
    by (cases "map_of cs k") (simp_all add: counts_json_def count_get_def)
  from st_get_repr [OF assms, of "JInt 0" "VInt 0" k] pure show ?thesis
    by (cases "st_get v k (VInt 0) h") (auto simp: value_repr_def)
qed

lemma count_len:
  assumes "repr h (counts_json cs) v"
  shows "st_len v h = Inr (length cs)"
  using assms
  by (auto simp: counts_json_def repr_JObj deref_def dest: list_all2_lengthD)

lemma data_parts:
  assumes "repr h (data_json d) dv"
  obtains sv ov rv where
    "st_subscript dv ''synthea'' h = Inr sv"
    "st_subscript dv ''omop'' h = Inr ov"
    "st_subscript dv ''pipeline_report'' h = Inr rv"
    "repr h (counts_json (synthea d)) sv"
    "repr h (counts_json (omop d)) ov"
    "repr h (pipeline_report d) rv"
proof -
  from assms obtain a ovs where dv: "dv = VRef a" "a < length h" "h ! a = ODict ovs"
    and all: "list_all2 (entry_repr h)
        [(''synthea'', counts_json (synthea d)), (''omop'', counts_json (omop d)),
         (''pipeline_report'', pipeline_report d)] ovs"
    by (auto simp: data_json_def repr_JObj)
  from all obtain e1 e2 e3 where ovs: "ovs = [e1, e2, e3]"
    and e: "entry_repr h (''synthea'', counts_json (synthea d)) e1"
      "entry_repr h (''omop'', counts_json (omop d)) e2"
      "entry_repr h (''pipeline_report'', pipeline_report d) e3"
    by (auto simp: list_all2_Cons1)
  obtain k1 sv k2 ov k3 rv where "e1 = (k1, sv)" "e2 = (k2, ov)" "e3 = (k3, rv)"
    by (cases e1, cases e2, cases e3)
  with e ovs have ovs': "ovs = [(''synthea'', sv), (''omop'', ov), (''pipeline_report'', rv)]"
    and r: "repr h (counts_json (synthea d)) sv" "repr h (counts_json (omop d)) ov"
      "repr h (pipeline_report d) rv"
    by (auto simp: entry_repr_def)
  from dv ovs' have
    "st_subscript dv ''synthea'' h = Inr sv"
    "st_subscript dv ''omop'' h = Inr ov"
    "st_subscript dv ''pipeline_report'' h = Inr rv"
    by (simp_all add: deref_def)
  then show ?thesis using r by (rule that)
qed

text \<open>
  The run over the store computes what \<open>calculate_metrics\<close> computes: started on
  a store where the argument stands for the data, it raises the same exception, or
  returns a dictionary that reads as the same metrics.
\<close>

lemma store_run_agrees:
  assumes "repr h (data_json d) dv"
  shows "sim metrics_repr h (calculate_metrics_store dv) (calculate_metrics d)"
proof -
  from assms obtain sv ov rv where
    parts: "st_subscript dv ''synthea'' h = Inr sv"
      "st_subscript dv ''omop'' h = Inr ov"
      "st_subscript dv ''pipeline_report'' h = Inr rv"
    and sv: "repr h (counts_json (synthea d)) sv"
    and ov: "repr h (counts_json (omop d)) ov"
    and rv: "repr h (pipeline_report d) rv"
    by (rule data_parts)
  let ?p = "count_get (synthea d) ''patients''"
  let ?q = "count_get (omop d) ''person''"
  let ?slots = "\<lambda>success_rate processing_time n concept_rate.
         [(''total_patients'', VInt ?p),
          (''total_encounters'', VInt (count_get (synthea d) ''encounters'')),
          (''total_conditions'', VInt (count_get (synthea d) ''conditions'')),
          (''total_medications'', VInt (count_get (synthea d) ''medications'')),
          (''total_procedures'', VInt (count_get (synthea d) ''procedures'')),
          (''total_observations'', VInt (count_get (synthea d) ''observations'')),
          (''omop_persons'', VInt ?q),
          (''omop_visits'', VInt (count_get (omop d) ''visit_occurrence'')),
          (''omop_conditions'', VInt (count_get (omop d) ''condition_occurrence'')),
          (''omop_drugs'', VInt (count_get (omop d) ''drug_exposure'')),
          (''omop_procedures'', VInt (count_get (omop d) ''procedure_occurrence'')),
          (''omop_measurements'', VInt (count_get (omop d) ''measurement'')),
          (''omop_observations'', VInt (count_get (omop d) ''observation'')),
          (''success_rate'', success_rate),
          (''processing_time'', processing_time),
          (''db_connected'', VBool (n > (0::nat))),
          (''concept_rate'', concept_rate)]"
  let ?run = "sbind (success_rate_store rv (VInt ?p) (VInt ?q)) (\<lambda>success_rate.
     sbind (processing_time_store rv) (\<lambda>processing_time.
     sbind (reading (st_len ov)) (\<lambda>n.
     sbind (concept_rate_store rv) (\<lambda>concept_rate.
       alloc (ODict (?slots success_rate processing_time n concept_rate))))))"
  have run: "calculate_metrics_store dv h = ?run h"
    by (simp add: calculate_metrics_store_def sbind_reading parts
        count_read [OF sv] count_read [OF ov])
  have pure: "calculate_metrics d =
      ebind (success_rate_of (pipeline_report d) ?p ?q) (\<lambda>rate.
      ebind (processing_time_of (pipeline_report d)) (\<lambda>seconds.
      ebind (concept_rate_of (pipeline_report d)) (\<lambda>concepts.
        Inr \<lparr> total_patients = ?p,
              total_encounters = count_get (synthea d) ''encounters'',
              total_conditions = count_get (synthea d) ''conditions'',
              total_medications = count_get (synthea d) ''medications'',
              total_procedures = count_get (synthea d) ''procedures'',
              total_observations = count_get (synthea d) ''observations'',
              omop_persons = ?q,
              omop_visits = count_get (omop d) ''visit_occurrence'',
              omop_conditions = count_get (omop d) ''condition_occurrence'',
              omop_drugs = count_get (omop d) ''drug_exposure'',
              omop_procedures = count_get (omop d) ''procedure_occurrence'',
              omop_measurements = count_get (omop d) ''measurement'',
              omop_observations = count_get (omop d) ''observation'',
              success_rate = rate,
              processing_time = seconds,
              db_connected = (length (omop d) > 0),
              concept_rate = concepts \<rparr>)))"
    by (simp add: calculate_metrics_def Let_def)
  have "sim metrics_repr h ?run (calculate_metrics d)"
    unfolding pure
  proof (rule sim_bind [OF sim_success_rate_store [OF rv]], goal_cases)
    case (1 h1 sr jsr)
    note ext1 = 1(1) and sr = 1(2)
    note rv1 = repr_mono [OF rv ext1]
    show ?case
    proof (rule sim_bind [OF sim_processing_time_store [OF rv1]], goal_cases)
      case (1 h2 pt seconds)
      note ext12 = 1(1) and pt = 1(2)
      note ext2 = extends_trans [OF ext1 ext12]
      note rv2 = repr_mono [OF rv ext2]
      note len = count_len [OF repr_mono [OF ov ext2]]
      show ?case
      proof (rule sim_len_known [OF len], rule sim_bind [OF sim_concept_rate_store [OF rv2]],
          goal_cases)
        case (1 h3 cr concepts)
        let ?h4 = "h3 @ [ODict (?slots sr pt (length (omop d)) cr)]"
        have "extends h1 ?h4"
          by (rule extends_trans [OF extends_trans [OF ext12 1(1)] extends_alloc])
        with sr have "repr ?h4 jsr sr"
          by (auto simp: value_repr_def intro: repr_mono)
        with pt 1(2) show ?case
          by (simp add: sim_def alloc_def extends_alloc metrics_repr_def deref_def
              field_is_def num_repr_def)
      qed
    qed
  qed
  then show ?thesis by (simp add: sim_def run)
qed

section \<open>Facts about the decimal rendering\<close>

lemma digit_inj:
  "a < 10 \<Longrightarrow> b < 10 \<Longrightarrow> ''0123456789'' ! a = ''0123456789'' ! b \<Longrightarrow> a = (b::nat)"
proof -
  assume "a < 10" "b < 10" and eq: "''0123456789'' ! a = ''0123456789'' ! b"
  have d: "distinct ''0123456789''" by simp
  from \<open>a < 10\<close> \<open>b < 10\<close> have "a < length ''0123456789''" "b < length ''0123456789''" by simp_all
  with d eq show "a = b" by (simp only: nth_eq_iff_index_eq)
qed

lemma digit_not_minus: "d < 10 \<Longrightarrow> ''0123456789'' ! d \<noteq> CHR ''-''"
proof -
  assume "d < 10"
  then have "''0123456789'' ! d \<in> set ''0123456789''"
    by (intro nth_mem) simp
  then show ?thesis by auto
qed

text \<open>
  The decimal rendering determines the integer. The defining equation of \<open>str_nat\<close>
  is taken out of the simplifier for these proofs, since it rewrites its own right-hand
  side.
\<close>

declare str_nat.simps [simp del]

lemma str_nat_not_empty: "str_nat n \<noteq> []"
  by (subst str_nat.simps) simp

lemma str_nat_last: "last (str_nat n) = ''0123456789'' ! (n mod 10)"
  by (subst str_nat.simps) simp

lemma str_nat_butlast:
  "butlast (str_nat n) = (if n < 10 then [] else str_nat (n div 10))"
  by (subst str_nat.simps) simp

lemma str_nat_inj: "str_nat n = str_nat m \<Longrightarrow> n = m"
proof (induction n arbitrary: m rule: less_induct)
  case (less n)
  from less.prems have l: "last (str_nat n) = last (str_nat m)"
    and b: "butlast (str_nat n) = butlast (str_nat m)" by simp_all
  from l have digit: "n mod 10 = m mod 10"
    by (auto simp: str_nat_last intro: digit_inj)
  show ?case
  proof (cases "n < 10")
    case True
    with b have "m < 10"
      using str_nat_not_empty [of "m div 10"]
      by (auto simp: str_nat_butlast split: if_splits)
    with True digit show ?thesis by simp
  next
    case False
    with b have m: "\<not> m < 10" and rest: "str_nat (n div 10) = str_nat (m div 10)"
      using str_nat_not_empty [of "n div 10"]
      by (auto simp: str_nat_butlast split: if_splits)
    from False have "n div 10 < n" by simp
    from less.IH [OF this rest] have "n div 10 = m div 10" .
    with digit show ?thesis
      by (metis div_mult_mod_eq)
  qed
qed

lemma str_nat_no_sign: "hd (str_nat n) \<noteq> CHR ''-''"
proof (induction n rule: str_nat.induct)
  case (1 n)
  show ?case
  proof (cases "n < 10")
    case True
    then show ?thesis by (subst str_nat.simps) (simp add: digit_not_minus)
  next
    case False
    with 1 have "hd (str_nat (n div 10)) \<noteq> CHR ''-''" by simp
    with False show ?thesis
      by (subst str_nat.simps) (simp add: str_nat_not_empty)
  qed
qed

lemma str_int_inj: "str_int i = str_int j \<Longrightarrow> i = j"
proof -
  assume eq: "str_int i = str_int j"
  have sign: "\<And>n m. CHR ''-'' # str_nat n \<noteq> str_nat m"
    by (metis list.sel(1) str_nat_no_sign)
  show "i = j"
  proof (cases "i < 0")
    case True
    with eq sign have "j < 0" by (auto simp: str_int_def split: if_splits)
    with True eq have "nat (- i) = nat (- j)" by (auto simp: str_int_def dest: str_nat_inj)
    with True \<open>j < 0\<close> show ?thesis by simp
  next
    case False
    with eq sign have "\<not> j < 0" by (auto simp: str_int_def split: if_splits dest: sym)
    with False eq have "nat i = nat j" by (auto simp: str_int_def dest: str_nat_inj)
    with False \<open>\<not> j < 0\<close> show ?thesis by simp
  qed
qed

declare str_nat.simps [simp]

section \<open>The claims\<close>

subsection \<open>C1: the tiers of the success rate\<close>

text \<open>
  Claim C1 orders the tiers as reported rate, derived ratio, default, and says that a
  report without an overall rate and a positive patient count give the derived ratio.
  The code gates on the validation results instead: with 30 patients, 15 persons and a
  report whose validation results carry no overall rate, it answers the default 0.95
  where the claim asks for the ratio 0.5.
\<close>

theorem success_rate_skips_ratio_counterexample:
  "returned success_rate
     (calculate_metrics \<lparr> synthea = [(''patients'', 30)], omop = [(''person'', 15)],
        pipeline_report = JObj [(''validation_results'', JObj [])] \<rparr>)
     = Some (JFloat 0.95)
   \<and> spec_success_rate (JObj [(''validation_results'', JObj [])]) 30 15 = JFloat 0.5
   \<and> lookup_path (JObj [(''validation_results'', JObj [])])
        [''validation_results'', ''summary'', ''overall_success_rate''] = None"
  by (simp add: returned_def calculate_metrics_def Let_def ebind_def success_rate_of_def
      report_has_def processing_time_of_def concept_rate_of_def count_get_def
      spec_success_rate_def derived_success_rate_def)

text \<open>
  C1 as amended: whenever the call returns, the success rate is the one of the gated
  tiers: for a report with validation results, its overall rate if it has one and the
  default 0.95 if not; for a report without validation results (or no report), the
  ratio of persons to patients capped at 1 when there are patients, else the default.
  For a report of the documented shape the call does return.
\<close>

theorem success_rate_tiers:
  "(\<forall>m. calculate_metrics d = Inr m \<longrightarrow>
       success_rate m = gated_success_rate (pipeline_report d)
         (count_get (synthea d) ''patients'') (count_get (omop d) ''person''))
   \<and> (report_well_shaped (pipeline_report d) \<longrightarrow>
        returned success_rate (calculate_metrics d) =
          Some (gated_success_rate (pipeline_report d)
            (count_get (synthea d) ''patients'') (count_get (omop d) ''person'')))"
proof (intro conjI allI impI)
  fix m
  assume "calculate_metrics d = Inr m"
  from success_rate_of_Inr [OF calculate_metrics_Inr(1) [OF this]]
  show "success_rate m = gated_success_rate (pipeline_report d)
         (count_get (synthea d) ''patients'') (count_get (omop d) ''person'')" .
next
  assume "report_well_shaped (pipeline_report d)"
  from calculate_metrics_ok [OF this]
  show "returned success_rate (calculate_metrics d) =
          Some (gated_success_rate (pipeline_report d)
            (count_get (synthea d) ''patients'') (count_get (omop d) ''person''))"
    by (simp add: returned_def)
qed

text \<open>
  Thirty patients and 28 persons without a report give the ratio 28/30.
\<close>

theorem success_rate_tiers_witness:
  "report_well_shaped (JObj [])
   \<and> returned success_rate
       (calculate_metrics \<lparr> synthea = [(''patients'', 30)], omop = [(''person'', 28)],
          pipeline_report = JObj [] \<rparr>) = Some (JFloat (28 / 30))"
  using success_rate_tiers
    [of "\<lparr> synthea = [(''patients'', 30)], omop = [(''person'', 28)],
          pipeline_report = JObj [] \<rparr>"]
  by (simp add: gated_success_rate_def derived_success_rate_def count_get_def)

subsection \<open>C2: the range of the success rate\<close>

text \<open>
  Claim C2 wants the success rate in the closed interval from 0 to 1 for every report,
  a reported rate outside it being clamped or ignored. The code hands a reported rate
  on as it is: a report whose overall rate is 1.5 gives the success rate 1.5.
\<close>

theorem reported_rate_not_clamped_counterexample:
  "returned success_rate
     (calculate_metrics \<lparr> synthea = [(''patients'', 30)], omop = [(''person'', 30)],
        pipeline_report =
          JObj [(''validation_results'',
            JObj [(''summary'', JObj [(''overall_success_rate'', JFloat 1.5)])])] \<rparr>)
     = Some (JFloat 1.5)
   \<and> \<not> in_unit_interval (JFloat 1.5)"
  by (simp add: returned_def calculate_metrics_def Let_def ebind_def success_rate_of_def
      report_has_def processing_time_of_def concept_rate_of_def count_get_def
      in_unit_interval_def)

text \<open>
  C2 as amended: for a report of the documented shape whose overall rate, if it has
  one, is a number between 0 and 1, and a person count that is not negative, the call
  returns a success rate between 0 and 1. A reported rate is used as it is, not
  clamped.
\<close>

theorem success_rate_in_unit_interval:
  assumes "report_well_shaped (pipeline_report d)"
    and "0 \<le> count_get (omop d) ''person''"
    and "case lookup_path (pipeline_report d)
              [''validation_results'', ''summary'', ''overall_success_rate'']
           of None \<Rightarrow> True | Some v \<Rightarrow> in_unit_interval v"
  shows "\<exists>m. calculate_metrics d = Inr m \<and> in_unit_interval (success_rate m)"
  using gated_in_unit_interval [OF assms(2,3)]
  by (simp add: calculate_metrics_ok [OF assms(1)])

text \<open>
  With 30 patients and 45 persons the ratio 1.5 is capped at 1.
\<close>

theorem success_rate_in_unit_interval_witness:
  "report_well_shaped (JObj [])
   \<and> 0 \<le> count_get [(''person'', 45)] ''person''
   \<and> (\<exists>m. calculate_metrics \<lparr> synthea = [(''patients'', 30)], omop = [(''person'', 45)],
          pipeline_report = JObj [] \<rparr> = Inr m \<and> success_rate m = JFloat 1
          \<and> in_unit_interval (success_rate m))"
proof -
  let ?d = "\<lparr> synthea = [(''patients'', 30)], omop = [(''person'', 45)],
          pipeline_report = JObj [] \<rparr>"
  have shape: "report_well_shaped (pipeline_report ?d)" by simp
  have count: "0 \<le> count_get (omop ?d) ''person''" by (simp add: count_get_def)
  have rate: "case lookup_path (pipeline_report ?d)
              [''validation_results'', ''summary'', ''overall_success_rate'']
           of None \<Rightarrow> True | Some v \<Rightarrow> in_unit_interval v" by simp
  from success_rate_in_unit_interval [OF shape count rate]
  obtain m where m: "calculate_metrics ?d = Inr m" "in_unit_interval (success_rate m)" by blast
  from m(1) have "success_rate m = JFloat 1"
    by (auto simp: calculate_metrics_ok [OF shape] gated_success_rate_def
        derived_success_rate_def count_get_def)
  with m shape count show ?thesis by auto
qed

subsection \<open>C3: the connection flag\<close>

text \<open>
  Claim C3 makes the flag true exactly when some target count is positive. The code
  asks whether the target dictionary has an entry at all: a \<^verbatim>\<open>person.csv\<close> without
  rows loads as the entry \<open>person = 0\<close>, and the flag is true with no positive count.
\<close>

theorem connected_with_zero_counts_counterexample:
  "returned db_connected
     (calculate_metrics (load_real_data
        \<lparr> synthea_dir = Map.empty, omop_dir = [''person.csv'' \<mapsto> Rows 0],
          data_dir_exists = True, pipeline_files = [] \<rparr>)) = Some True
   \<and> \<not> spec_target_connected (omop (load_real_data
        \<lparr> synthea_dir = Map.empty, omop_dir = [''person.csv'' \<mapsto> Rows 0],
          data_dir_exists = True, pipeline_files = [] \<rparr>))"
  by (simp add: returned_def calculate_metrics_def Let_def ebind_def success_rate_of_def
      report_has_def processing_time_of_def concept_rate_of_def count_get_def
      load_real_data_def load_pipeline_report_def synthea_files_def omop_files_def
      table_name_def spec_target_connected_def)

text \<open>
  C3 as amended: the flag is true exactly when the target dictionary has at least one
  entry, whatever its count. So it is true whenever some target count is positive, and
  false only when no target entry is present.
\<close>

theorem db_connected_iff_some_entry:
  assumes "report_well_shaped (pipeline_report d)"
  shows "returned db_connected (calculate_metrics d) = Some (omop d \<noteq> [])
         \<and> (spec_target_connected (omop d) \<longrightarrow> omop d \<noteq> [])"
  by (auto simp: calculate_metrics_ok [OF assms] returned_def spec_target_connected_def)

text \<open>
  No entry gives false; the single entry \<open>person = 0\<close> gives true.
\<close>

theorem db_connected_iff_some_entry_witness:
  "report_well_shaped (JObj [])
   \<and> returned db_connected
       (calculate_metrics \<lparr> synthea = [], omop = [], pipeline_report = JObj [] \<rparr>) = Some False
   \<and> returned db_connected
       (calculate_metrics \<lparr> synthea = [], omop = [(''person'', 0)], pipeline_report = JObj [] \<rparr>)
       = Some True"
  using db_connected_iff_some_entry [of "\<lparr> synthea = [], omop = [], pipeline_report = JObj [] \<rparr>"]
    db_connected_iff_some_entry
      [of "\<lparr> synthea = [], omop = [(''person'', 0)], pipeline_report = JObj [] \<rparr>"]
  by simp

subsection \<open>C4: rows without data\<close>

text \<open>
  Claim C4 classifies a row as without data exactly when its source count is 0, also
  when both counts of a one-to-one pairing are 0. The code compares the two counts of
  such a pairing and nothing else: with no data at all the row of patients against
  persons shows the source count 0 and the label \<^verbatim>\<open>100%\<close>.
\<close>

theorem equal_zero_counts_are_exact_counterexample:
  "registros_synthea (comparison_data \<lparr> synthea = [], omop = [], pipeline_report = JObj [] \<rparr> ! 0) = ''0''
   \<and> integridad (comparison_data \<lparr> synthea = [], omop = [], pipeline_report = JObj [] \<rparr> ! 0) = Ok_100
   \<and> integridad (comparison_data \<lparr> synthea = [], omop = [], pipeline_report = JObj [] \<rparr> ! 0) \<noteq> Sin_datos"
  by (simp add: comparison_data_def row_1_1_def count_get_def str_int_def)

text \<open>
  C4 as amended: a row of the table is labelled as without data exactly when it is the
  allergies row and the allergies count is not positive; no other row ever carries that
  label. A one-to-one row whose two counts are equal, both 0 included, is labelled
  \<^verbatim>\<open>100%\<close>.
\<close>

theorem no_data_only_for_allergies:
  "(\<forall>r \<in> set (comparison_data d).
      integridad r = Sin_datos \<longleftrightarrow>
        tabla_synthea r = ''allergies'' \<and> count_get (synthea d) ''allergies'' \<le> 0)
   \<and> (count_get (synthea d) src = count_get (omop d) tgt \<longrightarrow>
        integridad (row_1_1 d label src tgt) = Ok_100)"
  by (simp add: comparison_data_def row_1_1_def row_split_def)

text \<open>
  With 30 patients, 30 persons and no allergies the last row is without data and the
  first is exact; a one-to-one row over empty counts is exact.
\<close>

theorem no_data_only_for_allergies_witness:
  "integridad (comparison_data \<lparr> synthea = [(''patients'', 30)], omop = [(''person'', 30)],
      pipeline_report = JObj [] \<rparr> ! 9) = Sin_datos
   \<and> integridad (comparison_data \<lparr> synthea = [(''patients'', 30)], omop = [(''person'', 30)],
      pipeline_report = JObj [] \<rparr> ! 0) = Ok_100
   \<and> integridad (row_1_1 \<lparr> synthea = [], omop = [], pipeline_report = JObj [] \<rparr>
        ''encounters'' ''encounters'' ''visit_occurrence'') = Ok_100"
  using no_data_only_for_allergies
    [of "\<lparr> synthea = [(''patients'', 30)], omop = [(''person'', 30)], pipeline_report = JObj [] \<rparr>"
        "''patients''" "''person''" "''patients''"]
    no_data_only_for_allergies
    [of "\<lparr> synthea = [], omop = [], pipeline_report = JObj [] \<rparr>"
        "''encounters''" "''visit_occurrence''" "''encounters''"]
  by (simp add: comparison_data_def count_get_def row_1_1_def)

subsection \<open>C5: a snapshot that is not there\<close>

text \<open>
  Claim C5 asks for a failure, or an explicit signal that there is no data, when the
  counts are not available at all. With no data directory and no file, the loader
  returns empty dictionaries and the metrics are computed from them without any
  exception: zeros and the default rates.
\<close>

theorem missing_snapshot_returns_defaults_counterexample:
  "calculate_metrics (load_real_data
      \<lparr> synthea_dir = Map.empty, omop_dir = Map.empty,
        data_dir_exists = False, pipeline_files = [] \<rparr>)
   = Inr \<lparr> total_patients = 0, total_encounters = 0, total_conditions = 0,
           total_medications = 0, total_procedures = 0, total_observations = 0,
           omop_persons = 0, omop_visits = 0, omop_conditions = 0, omop_drugs = 0,
           omop_procedures = 0, omop_measurements = 0, omop_observations = 0,
           success_rate = JFloat 0.95, processing_time = 180, db_connected = False,
           concept_rate = 0.92 \<rparr>"
  by (simp add: calculate_metrics_def Let_def ebind_def success_rate_of_def
      report_has_def processing_time_of_def concept_rate_of_def count_get_def
      load_real_data_def load_pipeline_report_def synthea_files_def omop_files_def)

text \<open>
  C5 as amended: when none of the count files exists and there is no report, the loader
  returns empty count dictionaries and an empty report, and the metrics computation
  returns normally: every count 0, the default success rate 0.95, the default
  processing time 180, the default concept rate 0.92, and the connection flag false.
  The false flag is the only trace of the missing snapshot.
\<close>

theorem missing_snapshot_gives_defaults:
  assumes "\<forall>file \<in> set synthea_files. synthea_dir fs file = None"
    and "\<forall>file \<in> set omop_files. omop_dir fs file = None"
    and "\<not> data_dir_exists fs \<or> pipeline_files fs = []"
  shows "synthea (load_real_data fs) = [] \<and> omop (load_real_data fs) = []
   \<and> pipeline_report (load_real_data fs) = JObj []
   \<and> calculate_metrics (load_real_data fs)
      = Inr \<lparr> total_patients = 0, total_encounters = 0, total_conditions = 0,
           total_medications = 0, total_procedures = 0, total_observations = 0,
           omop_persons = 0, omop_visits = 0, omop_conditions = 0, omop_drugs = 0,
           omop_procedures = 0, omop_measurements = 0, omop_observations = 0,
           success_rate = JFloat 0.95, processing_time = 180, db_connected = False,
           concept_rate = 0.92 \<rparr>"
proof -
  have data: "load_real_data fs = \<lparr> synthea = [], omop = [], pipeline_report = JObj [] \<rparr>"
    using assms(3)
    by (auto simp: load_real_data_def load_counts_none [OF assms(1)]
        load_counts_none [OF assms(2)] load_pipeline_report_def)
  show ?thesis
    unfolding data
    by (simp add: calculate_metrics_def Let_def ebind_def success_rate_of_def
      report_has_def processing_time_of_def concept_rate_of_def count_get_def)
qed

text \<open>
  An existing but empty data directory.
\<close>

theorem missing_snapshot_gives_defaults_witness:
  "returned db_connected (calculate_metrics (load_real_data
        \<lparr> synthea_dir = Map.empty, omop_dir = Map.empty,
          data_dir_exists = True, pipeline_files = [] \<rparr>)) = Some False
   \<and> returned success_rate (calculate_metrics (load_real_data
        \<lparr> synthea_dir = Map.empty, omop_dir = Map.empty,
          data_dir_exists = True, pipeline_files = [] \<rparr>)) = Some (JFloat 0.95)"
  using missing_snapshot_gives_defaults
    [of "\<lparr> synthea_dir = Map.empty, omop_dir = Map.empty,
          data_dir_exists = True, pipeline_files = [] \<rparr>"]
  by (simp add: returned_def)

subsection \<open>C6: a malformed field of the report\<close>

text \<open>
  Claim C6 says that a field of the wrong shape is treated as absent and never ends the
  computation. The code does so for a coverage entry that is not a dictionary, which
  the loop skips. It does not for a mapped rate that is not a number: the rate is
  collected, the sum over the rates raises \<^verbatim>\<open>TypeError\<close>, and no metrics are
  returned. The first run below has the mapped rate \<^verbatim>\<open>"high"\<close>, the second the
  whole entry \<^verbatim>\<open>"high"\<close>.
\<close>

theorem non_numeric_mapped_rate_raises:
  "calculate_metrics \<lparr> synthea = [(''patients'', 30)], omop = [(''person'', 30)],
      pipeline_report =
        JObj [(''validation_results'',
          JObj [(''concept_coverage'',
            JObj [(''conditions'', JObj [(''mapped_rate'', JStr ''high'')])])])] \<rparr>
     = Inl TypeError
   \<and> calculate_metrics \<lparr> synthea = [(''patients'', 30)], omop = [(''person'', 30)],
      pipeline_report =
        JObj [(''validation_results'',
          JObj [(''concept_coverage'',
            JObj [(''conditions'', JStr ''high'')])])] \<rparr>
     = Inr \<lparr> total_patients = 30, total_encounters = 0, total_conditions = 0,
           total_medications = 0, total_procedures = 0, total_observations = 0,
           omop_persons = 30, omop_visits = 0, omop_conditions = 0, omop_drugs = 0,
           omop_procedures = 0, omop_measurements = 0, omop_observations = 0,
           success_rate = JFloat 0.95, processing_time = 180, db_connected = True,
           concept_rate = 0.92 \<rparr>"
  by (simp add: calculate_metrics_def Let_def ebind_def success_rate_of_def
      report_has_def processing_time_of_def concept_rate_of_def count_get_def py_sum_def)

subsection \<open>C7: the concept mapping rate\<close>

text \<open>
  Claim C7: for a report of the documented shape, the concept rate is the unweighted
  mean of the mapped rates that the coverage entries expose, an entry without the field
  being skipped and not counted as zero; when no entry exposes a rate it is the default
  0.92. The mean is taken over exact reals.
\<close>

theorem concept_rate_is_mean_of_present_rates:
  assumes "report_well_shaped (pipeline_report d)"
  shows "returned concept_rate (calculate_metrics d)
           = Some (spec_concept_mapping_rate (pipeline_report d))"
  by (simp add: calculate_metrics_ok [OF assms] returned_def)

text \<open>
  The coverage of conditions at 0.467 and drugs at 0.88, with an entry for procedures
  that has no mapped rate, gives 0.6735; validation results without coverage give the
  default.
\<close>

theorem concept_rate_is_mean_of_present_rates_witness:
  "report_well_shaped
     (JObj [(''validation_results'',
        JObj [(''concept_coverage'',
          JObj [(''conditions'', JObj [(''mapped_rate'', JFloat 0.467)]),
                (''procedures'', JObj [(''total'', JInt 12)]),
                (''drugs'', JObj [(''mapped_rate'', JFloat 0.88)])])])])
   \<and> returned concept_rate
       (calculate_metrics \<lparr> synthea = [], omop = [],
          pipeline_report =
            JObj [(''validation_results'',
              JObj [(''concept_coverage'',
                JObj [(''conditions'', JObj [(''mapped_rate'', JFloat 0.467)]),
                      (''procedures'', JObj [(''total'', JInt 12)]),
                      (''drugs'', JObj [(''mapped_rate'', JFloat 0.88)])])])] \<rparr>)
       = Some 0.6735
   \<and> returned concept_rate
       (calculate_metrics \<lparr> synthea = [], omop = [],
          pipeline_report = JObj [(''validation_results'', JObj [])] \<rparr>) = Some 0.92"
  using concept_rate_is_mean_of_present_rates
    [of "\<lparr> synthea = [], omop = [],
          pipeline_report =
            JObj [(''validation_results'',
              JObj [(''concept_coverage'',
                JObj [(''conditions'', JObj [(''mapped_rate'', JFloat 0.467)]),
                      (''procedures'', JObj [(''total'', JInt 12)]),
                      (''drugs'', JObj [(''mapped_rate'', JFloat 0.88)])])])] \<rparr>"]
    concept_rate_is_mean_of_present_rates
    [of "\<lparr> synthea = [], omop = [],
          pipeline_report = JObj [(''validation_results'', JObj [])] \<rparr>"]
  by (simp add: spec_concept_mapping_rate_def coverage_entries_def rate_values_def
      map_filter_simps)

subsection \<open>C8: the processing time\<close>

text \<open>
  Claim C8: for a report of the documented shape, the processing time is the sum of
  the durations the phases declare when the report has phases and the sum is positive,
  and the default 180 when there is no report, no phase section, or a sum that is not
  positive.
\<close>

theorem processing_time_is_sum_or_default:
  assumes "report_well_shaped (pipeline_report d)"
  shows "returned processing_time (calculate_metrics d)
           = Some (spec_processing_seconds (pipeline_report d))"
  by (simp add: calculate_metrics_ok [OF assms] returned_def)

text \<open>
  Phases of 10.5 and 20 seconds give 30.5; an empty phase section and an empty report
  give 180.
\<close>

theorem processing_time_is_sum_or_default_witness:
  "report_well_shaped
     (JObj [(''phase_performance'',
        JObj [(''extract'', JObj [(''duration_seconds'', JFloat 10.5)]),
              (''load'', JObj [(''duration_seconds'', JInt 20)])])])
   \<and> returned processing_time
       (calculate_metrics \<lparr> synthea = [], omop = [],
          pipeline_report =
            JObj [(''phase_performance'',
              JObj [(''extract'', JObj [(''duration_seconds'', JFloat 10.5)]),
                    (''load'', JObj [(''duration_seconds'', JInt 20)])])] \<rparr>) = Some 30.5
   \<and> returned processing_time
       (calculate_metrics \<lparr> synthea = [], omop = [],
          pipeline_report = JObj [(''phase_performance'', JObj [])] \<rparr>) = Some 180
   \<and> returned processing_time
       (calculate_metrics \<lparr> synthea = [], omop = [], pipeline_report = JObj [] \<rparr>) = Some 180"
  using processing_time_is_sum_or_default
    [of "\<lparr> synthea = [], omop = [],
          pipeline_report =
            JObj [(''phase_performance'',
              JObj [(''extract'', JObj [(''duration_seconds'', JFloat 10.5)]),
                    (''load'', JObj [(''duration_seconds'', JInt 20)])])] \<rparr>"]
    processing_time_is_sum_or_default
    [of "\<lparr> synthea = [], omop = [],
          pipeline_report = JObj [(''phase_performance'', JObj [])] \<rparr>"]
    processing_time_is_sum_or_default
    [of "\<lparr> synthea = [], omop = [], pipeline_report = JObj [] \<rparr>"]
  by (simp add: spec_processing_seconds_def declared_phases_def)

subsection \<open>C9: rows that split a source table\<close>

text \<open>
  Claim C9: the two rows that split a source table over two target tables, observations
  over measurement and observation and organizations over care site and location, show
  as target count the integer sum of the two target counts, an absent table counting 0,
  and are labelled as split whenever that sum is positive. The count is
  shown as its decimal string, which stands for that sum and for no other integer.
\<close>

theorem split_rows_sum_their_targets:
  "tabla_synthea (comparison_data d ! 5) = ''observations''
   \<and> registros_omop (comparison_data d ! 5)
       = str_int (count_get (omop d) ''measurement'' + count_get (omop d) ''observation'')
   \<and> (0 < count_get (omop d) ''measurement'' + count_get (omop d) ''observation''
        \<longrightarrow> integridad (comparison_data d ! 5) = Dividido)
   \<and> tabla_synthea (comparison_data d ! 6) = ''organizations''
   \<and> registros_omop (comparison_data d ! 6)
       = str_int (count_get (omop d) ''care_site'' + count_get (omop d) ''location'')
   \<and> (0 < count_get (omop d) ''care_site'' + count_get (omop d) ''location''
        \<longrightarrow> integridad (comparison_data d ! 6) = Dividido)
   \<and> (registros_omop (comparison_data d ! 5) = str_int n
        \<longleftrightarrow> n = count_get (omop d) ''measurement'' + count_get (omop d) ''observation'')
   \<and> (registros_omop (comparison_data d ! 6) = str_int n
        \<longleftrightarrow> n = count_get (omop d) ''care_site'' + count_get (omop d) ''location'')"
  by (auto simp: comparison_data_def row_split_def dest: str_int_inj)

text \<open>
  50 observations against 20 measurements and 30 observations: the row shows 50 on both
  sides and is labelled as split.
\<close>

theorem split_rows_sum_their_targets_witness:
  "registros_synthea (comparison_data \<lparr> synthea = [(''observations'', 50)],
       omop = [(''measurement'', 20), (''observation'', 30)], pipeline_report = JObj [] \<rparr> ! 5)
     = ''50''
   \<and> registros_omop (comparison_data \<lparr> synthea = [(''observations'', 50)],
       omop = [(''measurement'', 20), (''observation'', 30)], pipeline_report = JObj [] \<rparr> ! 5)
     = ''50''
   \<and> integridad (comparison_data \<lparr> synthea = [(''observations'', 50)],
       omop = [(''measurement'', 20), (''observation'', 30)], pipeline_report = JObj [] \<rparr> ! 5)
     = Dividido"
  using split_rows_sum_their_targets
    [of "\<lparr> synthea = [(''observations'', 50)],
       omop = [(''measurement'', 20), (''observation'', 30)], pipeline_report = JObj [] \<rparr>"]
  by (simp add: count_get_def str_int_def comparison_data_def row_split_def)

subsection \<open>C10: the inputs are left as they were\<close>

text \<open>
  Claim C10: the metrics computation does not change its inputs. Over the object store,
  every object that exists when the call starts, so the data dictionary, the two count
  dictionaries, the report and everything below it, is the same object with the same
  content when the call ends, whether it returns or raises. The call only adds objects:
  the empty dictionaries of the defaults, the list of rates and the result. So an
  argument that stands for some data before the call stands for the same data after it,
  and the outcome of the run is the outcome of \<open>calculate_metrics\<close> on that data.
\<close>

theorem inputs_unchanged:
  "take (length h) (fst (calculate_metrics_store dv h)) = h
   \<and> (repr h (data_json d) dv \<longrightarrow>
        repr (fst (calculate_metrics_store dv h)) (data_json d) dv
        \<and> sim metrics_repr h (calculate_metrics_store dv) (calculate_metrics d))"
proof (intro conjI impI)
  show "take (length h) (fst (calculate_metrics_store dv h)) = h"
    using keeps_calculate_metrics_store [of "length h" dv]
    by (simp add: keeps_def)
next
  assume data: "repr h (data_json d) dv"
  from store_run_agrees [OF data]
  show agrees: "sim metrics_repr h (calculate_metrics_store dv) (calculate_metrics d)" .
  then have "extends h (fst (calculate_metrics_store dv h))"
    by (cases "calculate_metrics_store dv h") (simp add: sim_def)
  with data show "repr (fst (calculate_metrics_store dv h)) (data_json d) dv"
    by (rule repr_mono)
qed

text \<open>
  A store of seven objects that holds 30 patients, 28 persons and a report with one
  mapped rate: after the call the seven are as before, and the result is the eleventh
  object.
\<close>

theorem inputs_unchanged_witness:
  "repr
     [ODict [(''synthea'', VRef 1), (''omop'', VRef 2), (''pipeline_report'', VRef 3)],
      ODict [(''patients'', VInt 30)],
      ODict [(''person'', VInt 28)],
      ODict [(''validation_results'', VRef 4)],
      ODict [(''concept_coverage'', VRef 5)],
      ODict [(''conditions'', VRef 6)],
      ODict [(''mapped_rate'', VFloat 0.5)]]
     (data_json \<lparr> synthea = [(''patients'', 30)], omop = [(''person'', 28)],
        pipeline_report =
          JObj [(''validation_results'',
            JObj [(''concept_coverage'',
              JObj [(''conditions'', JObj [(''mapped_rate'', JFloat 0.5)])])])] \<rparr>)
     (VRef 0)
   \<and> take 7 (fst (calculate_metrics_store (VRef 0)
     [ODict [(''synthea'', VRef 1), (''omop'', VRef 2), (''pipeline_report'', VRef 3)],
      ODict [(''patients'', VInt 30)],
      ODict [(''person'', VInt 28)],
      ODict [(''validation_results'', VRef 4)],
      ODict [(''concept_coverage'', VRef 5)],
      ODict [(''conditions'', VRef 6)],
      ODict [(''mapped_rate'', VFloat 0.5)]]))
   = [ODict [(''synthea'', VRef 1), (''omop'', VRef 2), (''pipeline_report'', VRef 3)],
      ODict [(''patients'', VInt 30)],
      ODict [(''person'', VInt 28)],
      ODict [(''validation_results'', VRef 4)],
      ODict [(''concept_coverage'', VRef 5)],
      ODict [(''conditions'', VRef 6)],
      ODict [(''mapped_rate'', VFloat 0.5)]]
   \<and> snd (calculate_metrics_store (VRef 0)
     [ODict [(''synthea'', VRef 1), (''omop'', VRef 2), (''pipeline_report'', VRef 3)],
      ODict [(''patients'', VInt 30)],
      ODict [(''person'', VInt 28)],
      ODict [(''validation_results'', VRef 4)],
      ODict [(''concept_coverage'', VRef 5)],
      ODict [(''conditions'', VRef 6)],
      ODict [(''mapped_rate'', VFloat 0.5)]]) = Inr (VRef 10)
   \<and> sim metrics_repr
     [ODict [(''synthea'', VRef 1), (''omop'', VRef 2), (''pipeline_report'', VRef 3)],
      ODict [(''patients'', VInt 30)],
      ODict [(''person'', VInt 28)],
      ODict [(''validation_results'', VRef 4)],
      ODict [(''concept_coverage'', VRef 5)],
      ODict [(''conditions'', VRef 6)],
      ODict [(''mapped_rate'', VFloat 0.5)]]
     (calculate_metrics_store (VRef 0))
     (calculate_metrics \<lparr> synthea = [(''patients'', 30)], omop = [(''person'', 28)],
        pipeline_report =
          JObj [(''validation_results'',
            JObj [(''concept_coverage'',
              JObj [(''conditions'', JObj [(''mapped_rate'', JFloat 0.5)])])])] \<rparr>)"
proof -
  let ?h = "[ODict [(''synthea'', VRef 1), (''omop'', VRef 2), (''pipeline_report'', VRef 3)],
      ODict [(''patients'', VInt 30)],
      ODict [(''person'', VInt 28)],
      ODict [(''validation_results'', VRef 4)],
      ODict [(''concept_coverage'', VRef 5)],
      ODict [(''conditions'', VRef 6)],
      ODict [(''mapped_rate'', VFloat 0.5)]]"
  let ?d = "\<lparr> synthea = [(''patients'', 30)], omop = [(''person'', 28)],
        pipeline_report =
          JObj [(''validation_results'',
            JObj [(''concept_coverage'',
              JObj [(''conditions'', JObj [(''mapped_rate'', JFloat 0.5)])])])] \<rparr>"
  have data: "repr ?h (data_json ?d) (VRef 0)"
    by (simp add: data_json_def counts_json_def repr_simps entry_repr_def)
  have result: "snd (calculate_metrics_store (VRef 0) ?h) = Inr (VRef 10)"
    by (simp add: calculate_metrics_store_def sbind_def reading_def unit_run_def lift_def
        alloc_def append_item_def deref_def st_get_def st_values_def st_sum_def
        get_or_fresh_dict_def report_has_store_def success_rate_store_def
        processing_time_store_def concept_rate_store_def st_add_def st_truediv_def
        st_positive_def st_min_one_def)
  have len: "length ?h = 7" by simp
  note claim = inputs_unchanged [of ?h "VRef 0" ?d]
  from claim have kept: "take 7 (fst (calculate_metrics_store (VRef 0) ?h)) = ?h"
    by (simp only: len)
  from claim data
  have agrees: "sim metrics_repr ?h (calculate_metrics_store (VRef 0)) (calculate_metrics ?d)"
    by blast
  from data kept result agrees show ?thesis by (intro conjI)
qed

end
